theory Spec2Isabelle
  imports Main "HOL-Library.Word"
begin

section \<open>JavaScript strings\<close>

text \<open>
  A JavaScript string is a sequence of 16-bit code units; offsets, \<^verbatim>\<open>length\<close>,
  \<^verbatim>\<open>split\<close> and a regular expression without the \<^verbatim>\<open>u\<close> flag all count code units.
  \<open>js\<close> writes an ASCII literal as such a sequence.
\<close>

type_synonym jschar = "16 word"
type_synonym jsstring = "jschar list"

definition js :: "string \<Rightarrow> jsstring" where
  "js s = map of_char s"

definition nl :: jschar where
  "nl = 0x0A"

text \<open>\<^verbatim>\<open>s.startsWith(p)\<close>\<close>

definition startsWith :: "jsstring \<Rightarrow> jsstring \<Rightarrow> bool" where
  "startsWith s p = (take (length p) s = p)"

text \<open>\<^verbatim>\<open>s.slice(n)\<close> for a non-negative \<open>n\<close>\<close>

definition slice :: "nat \<Rightarrow> jsstring \<Rightarrow> jsstring" where
  "slice n s = drop n s"

text \<open>\<^verbatim>\<open>xs.join(sep)\<close>\<close>

fun join :: "jsstring \<Rightarrow> jsstring list \<Rightarrow> jsstring" where
  "join sep [] = []"
| "join sep [x] = x"
| "join sep (x # y # ys) = x @ sep @ join sep (y # ys)"

text \<open>
  \<^verbatim>\<open>s.split(sep)\<close> with a string separator: the pieces between the occurrences of
  \<open>sep\<close>, found left to right without overlap; the piece after the last occurrence is
  always there, also when it is empty. An empty separator splits into code units.
\<close>

fun split_acc :: "jsstring \<Rightarrow> jsstring \<Rightarrow> jsstring \<Rightarrow> jsstring list" where
  "split_acc sep acc [] = [acc]"
| "split_acc sep acc (c # cs) =
     (if sep \<noteq> [] \<and> startsWith (c # cs) sep
      then acc # split_acc sep [] (drop (length sep) (c # cs))
      else split_acc sep (acc @ [c]) cs)"

definition split :: "jsstring \<Rightarrow> jsstring \<Rightarrow> jsstring list" where
  "split sep s = (if sep = [] then map (\<lambda>c. [c]) s else split_acc sep [] s)"

text \<open>lodash's \<^verbatim>\<open>_.isEmpty\<close> on a string and on an array: it has length 0.\<close>

definition isEmpty :: "'a list \<Rightarrow> bool" where
  "isEmpty xs = (length xs = 0)"

text \<open>\<open>occursIn sep s\<close>: the string \<open>sep\<close> is a substring of \<open>s\<close>.\<close>

primrec occursIn :: "jsstring \<Rightarrow> jsstring \<Rightarrow> bool" where
  "occursIn sep [] = startsWith [] sep"
| "occursIn sep (c # cs) = (startsWith (c # cs) sep \<or> occursIn sep cs)"

text \<open>The carriage return.\<close>

definition cr :: jschar where
  "cr = 0x0D"

text \<open>
  The characters that \<^verbatim>\<open>\s\<close> matches and that \<^verbatim>\<open>trim\<close> removes: the white space and the
  line terminators of ECMAScript.
\<close>

definition whiteSpaceClass :: "jschar \<Rightarrow> bool" where
  "whiteSpaceClass c =
     (c \<in> set [0x09, 0x0A, 0x0B, 0x0C, 0x0D, 0x20, 0xA0, 0x1680,
                0x2000, 0x2001, 0x2002, 0x2003, 0x2004, 0x2005, 0x2006, 0x2007, 0x2008, 0x2009, 0x200A,
                0x2028, 0x2029, 0x202F, 0x205F, 0x3000, 0xFEFF])"

text \<open>\<^verbatim>\<open>s.trim()\<close>\<close>

definition trim :: "jsstring \<Rightarrow> jsstring" where
  "trim s = rev (dropWhile whiteSpaceClass (rev (dropWhile whiteSpaceClass s)))"

text \<open>
  \<open>indexOfFrom sub s i\<close>: the first offset from \<open>i\<close> on where \<open>sub\<close> stands in \<open>s\<close>, as
  \<^verbatim>\<open>s.indexOf(sub, i)\<close> finds it; \<open>None\<close> when there is none.
\<close>

function indexOfFrom :: "jsstring \<Rightarrow> jsstring \<Rightarrow> nat \<Rightarrow> nat option" where
  "indexOfFrom sub s i =
     (if length s < i + length sub then None
      else if startsWith (drop i s) sub then Some i
      else indexOfFrom sub s (Suc i))"
  by pat_completeness auto
termination
  by (relation "measure (\<lambda>(sub, s, i). Suc (length s) - i)") auto

declare indexOfFrom.simps [simp del]

section \<open>Change detector (utils.js)\<close>

text \<open>
  \<^verbatim>\<open>extractAddedLines(diff)\<close>: the lines of the patch that start with \<^verbatim>\<open>+\<close>, without
  that first character, joined by newlines, split at the token \<^verbatim>\<open>++ code\<close> and with
  the empty pieces dropped.
\<close>

definition extractAddedLines :: "jsstring \<Rightarrow> jsstring list" where
  "extractAddedLines diff =
     filter (\<lambda>item. \<not> isEmpty item)
       (split (js ''++ code'')
         (join (js ''\<newline>'')
           (map (\<lambda>line. slice 1 line)
             (filter (\<lambda>line. startsWith line (js ''+''))
               (split (js ''\<newline>'') diff)))))"

text \<open>
  \<^verbatim>\<open>findDifferences(code1, code2)\<close>. \<^verbatim>\<open>Diff.createPatch\<close> belongs to the package
  \<^verbatim>\<open>diff\<close>, which is not part of the repository: it is the parameter \<open>createPatch\<close>,
  called with the file name, the old text and the new text. This is the value that the
  function returns; \<open>findDifferencesLogged\<close> below has the two \<^verbatim>\<open>console.log\<close> calls
  as well.
\<close>

definition findDifferences ::
    "(jsstring \<Rightarrow> jsstring \<Rightarrow> jsstring \<Rightarrow> jsstring) \<Rightarrow> jsstring \<Rightarrow> jsstring \<Rightarrow> jsstring list" where
  "findDifferences createPatch code1 code2 =
     (let diff = createPatch (js ''code'') code1 code2;
          addedLines = extractAddedLines diff
      in addedLines)"

text \<open>
  The same function with its effect: the two \<^verbatim>\<open>console.log\<close> calls add two entries to
  the console, the label \<^verbatim>\<open>addedLines1\<close> with the patch and the label \<^verbatim>\<open>addedLines\<close> with
  the result. Nothing else is read or written.
\<close>

datatype logEntry = LogText jsstring jsstring | LogList jsstring "jsstring list"

definition findDifferencesLogged ::
    "(jsstring \<Rightarrow> jsstring \<Rightarrow> jsstring \<Rightarrow> jsstring) \<Rightarrow> jsstring \<Rightarrow> jsstring
     \<Rightarrow> logEntry list \<Rightarrow> jsstring list \<times> logEntry list" where
  "findDifferencesLogged createPatch code1 code2 console =
     (let diff = createPatch (js ''code'') code1 code2;
          console1 = console @ [LogText (js ''addedLines1'') diff];
          addedLines = extractAddedLines diff;
          console2 = console1 @ [LogList (js ''addedLines'') addedLines]
      in (addedLines, console2))"

subsection \<open>The patch format\<close>

text \<open>
  Modelled from the spec: \<^verbatim>\<open>Diff.createPatch\<close> of the package \<^verbatim>\<open>diff\<close> is not under
  src/. Section 4.1 has it "compute a unified line-based patch between before and after",
  with "patch header/hunk-boundary marker lines" and a marker character in front of every
  line of a hunk. The text of such a patch, as the package writes it: the four header
  lines (\<^verbatim>\<open>Index: f\<close>, a rule of 67 equals signs, \<^verbatim>\<open>--- f\<close>, \<^verbatim>\<open>+++ f\<close>),
  then for every hunk the line \<^verbatim>\<open>@@ -a,b +c,d @@\<close> and the lines of the hunk, each with
  its marker (space: unchanged, \<^verbatim>\<open>-\<close>: removed, \<^verbatim>\<open>+\<close>: added); the lines are joined
  by newlines and a newline ends the text.
\<close>

definition patchHeader :: "jsstring \<Rightarrow> jsstring list" where
  "patchHeader fileName =
     [js ''Index: '' @ fileName,
      replicate 67 (of_char CHR ''=''),
      js ''--- '' @ fileName,
      js ''+++ '' @ fileName]"

definition formatPatch :: "jsstring \<Rightarrow> jsstring list \<Rightarrow> jsstring" where
  "formatPatch fileName hunkLines = join [nl] (patchHeader fileName @ hunkLines) @ [nl]"

text \<open>A number in decimal, as string concatenation writes it.\<close>

fun decimal :: "nat \<Rightarrow> jsstring" where
  "decimal n =
     (if n < 10 then [js ''0123456789'' ! n]
      else decimal (n div 10) @ [js ''0123456789'' ! (n mod 10)])"

declare decimal.simps [simp del]

text \<open>
  The hunk-boundary line; a range of no lines starts one line earlier, as the unified
  format has it.
\<close>

definition hunkHeader :: "nat \<Rightarrow> nat \<Rightarrow> nat \<Rightarrow> nat \<Rightarrow> jsstring" where
  "hunkHeader oldStart oldLines newStart newLines =
     js ''@@ -'' @ decimal (if oldLines = 0 then oldStart - 1 else oldStart) @ js '','' @ decimal oldLines
     @ js '' +'' @ decimal (if newLines = 0 then newStart - 1 else newStart) @ js '','' @ decimal newLines
     @ js '' @@''"

text \<open>
  The patch for a text of the complete lines \<open>old\<close> to which the complete lines \<open>added\<close>
  were appended: no hunk when nothing was appended; otherwise one hunk, with the last
  four lines of \<open>old\<close> as context (the package's default) and then the appended lines.
\<close>

definition appendPatch :: "jsstring \<Rightarrow> jsstring list \<Rightarrow> jsstring list \<Rightarrow> jsstring" where
  "appendPatch fileName old added =
     (let ctx = drop (length old - 4) old;
          start = length old - length ctx + 1
      in formatPatch fileName
           (if added = [] then []
            else hunkHeader start (length ctx) start (length ctx + length added)
                 # map (\<lambda>l. of_char CHR '' '' # l) ctx @ map (\<lambda>l. of_char CHR ''+'' # l) added))"

text \<open>A text made of complete lines: every line is followed by a newline.\<close>

definition unlines :: "jsstring list \<Rightarrow> jsstring" where
  "unlines ls = concat (map (\<lambda>l. l @ [nl]) ls)"

text \<open>
  A stand-in for \<^verbatim>\<open>Diff.createPatch\<close> on which the theorems below are evaluated. It cuts
  both texts into lines (a line keeps its newline), keeps the longest common prefix of
  lines, its last four lines being the context of the only hunk, and replaces whatever
  follows: the remaining old lines are removed, the remaining new lines are added. A line
  that is not ended by a newline is followed by the format's marker line. This is a
  unified line-based patch of the two texts for every input; for equal texts and for
  complete lines appended to complete lines it is \<open>appendPatch\<close>, the patch of the
  package. For other texts the package may find a shorter patch, and nothing below
  evaluates the stand-in there.
\<close>

fun linesOf :: "jsstring \<Rightarrow> jsstring \<Rightarrow> jsstring list" where
  "linesOf acc [] = (if acc = [] then [] else [acc])"
| "linesOf acc (c # cs) = (if c = nl then (acc @ [c]) # linesOf [] cs else linesOf (acc @ [c]) cs)"

fun dropCommon :: "jsstring list \<Rightarrow> jsstring list \<Rightarrow> jsstring list \<times> jsstring list" where
  "dropCommon (x # xs) (y # ys) = (if x = y then dropCommon xs ys else (x # xs, y # ys))"
| "dropCommon xs ys = (xs, ys)"

definition hunkLine :: "jschar \<Rightarrow> jsstring \<Rightarrow> jsstring list" where
  "hunkLine marker l =
     (if l \<noteq> [] \<and> last l = nl then [marker # butlast l]
      else [marker # l, 0x5C # js '' No newline at end of file''])"

definition createPatch_prefix :: "jsstring \<Rightarrow> jsstring \<Rightarrow> jsstring \<Rightarrow> jsstring" where
  "createPatch_prefix fileName oldStr newStr =
     (let old = linesOf [] oldStr;
          new = linesOf [] newStr;
          (restOld, restNew) = dropCommon old new;
          common = take (length old - length restOld) old;
          ctx = drop (length common - 4) common;
          start = length common - length ctx + 1
      in formatPatch fileName
           (if restOld = [] \<and> restNew = [] then []
            else hunkHeader start (length ctx + length restOld) start (length ctx + length restNew)
                 # concat (map (hunkLine (of_char CHR '' '')) ctx)
                 @ concat (map (hunkLine (of_char CHR ''-'')) restOld)
                 @ concat (map (hunkLine (of_char CHR ''+'')) restNew)))"

section \<open>Typos and diagnostics\<close>

text \<open>\<^verbatim>\<open>vscode.DiagnosticSeverity\<close>\<close>

datatype diagnosticSeverity = Error | Warning | Information | Hint

text \<open>
  Modelled from the spec: the type \<^verbatim>\<open>CodespellTypo\<close> is declared in typo.ts, which is not
  under src/. Section 3 gives its fields; a field that may be \<^verbatim>\<open>undefined\<close> is an option.
\<close>

record typo =
  token :: jsstring
  suggestions :: "jsstring list"
  info :: jsstring
  severity :: "diagnosticSeverity option"
  isCommon :: "bool option"

text \<open>
  \<^verbatim>\<open>vscode.Position\<close> and \<^verbatim>\<open>vscode.Range\<close>. The constructor of a range puts the earlier
  of its two positions first.
\<close>

record position =
  line :: nat
  character :: nat

record vsRange =
  rangeStart :: position
  rangeEnd :: position

definition isBefore :: "position \<Rightarrow> position \<Rightarrow> bool" where
  "isBefore a b = (line a < line b \<or> (line a = line b \<and> character a < character b))"

definition Range :: "position \<Rightarrow> position \<Rightarrow> vsRange" where
  "Range a b =
     (if isBefore a b then \<lparr>rangeStart = a, rangeEnd = b\<rparr> else \<lparr>rangeStart = b, rangeEnd = a\<rparr>)"

text \<open>
  \<^verbatim>\<open>vscode.TextDocument\<close>, as far as the code uses it: \<^verbatim>\<open>doc.uri\<close>, \<^verbatim>\<open>doc.getText()\<close>
  and \<^verbatim>\<open>doc.positionAt(offset)\<close>.
\<close>

record textDocument =
  uri :: jsstring
  getText :: jsstring

text \<open>
  \<^verbatim>\<open>doc.positionAt(offset)\<close> is the editor's mapping of offsets to positions. The editor
  keeps a document as lines, cut at \<^verbatim>\<open>\r\n\<close>, \<^verbatim>\<open>\r\<close> and \<^verbatim>\<open>\n\<close>: the line of an offset
  is the number of line ends before it, its character the distance from the start of that
  line, and a position is never behind the text of its line: an offset between the
  \<^verbatim>\<open>\r\<close> and the \<^verbatim>\<open>\n\<close> of a line end has the position of the \<^verbatim>\<open>\r\<close>, an offset behind the
  text has the position of its end. \<open>posScan s k l c\<close> walks \<open>k\<close> code units into \<open>s\<close>
  from the position \<open>(l, c)\<close>.
\<close>

fun posScan :: "jsstring \<Rightarrow> nat \<Rightarrow> nat \<Rightarrow> nat \<Rightarrow> position" where
  "posScan s 0 l c = \<lparr>line = l, character = c\<rparr>"
| "posScan [] (Suc k) l c = \<lparr>line = l, character = c\<rparr>"
| "posScan [x] (Suc k) l c =
     (if x = cr \<or> x = nl then posScan [] k (Suc l) 0 else posScan [] k l (Suc c))"
| "posScan (x # y # ys) (Suc k) l c =
     (if x = cr \<and> y = nl then
        (case k of 0 \<Rightarrow> \<lparr>line = l, character = c\<rparr> | Suc k' \<Rightarrow> posScan ys k' (Suc l) 0)
      else if x = cr \<or> x = nl then posScan (y # ys) k (Suc l) 0
      else posScan (y # ys) k l (Suc c))"

definition positionAt :: "textDocument \<Rightarrow> nat \<Rightarrow> position" where
  "positionAt doc offset = posScan (getText doc) offset 0 0"

text \<open>The result of \<^verbatim>\<open>regex.exec\<close>: \<^verbatim>\<open>match.index\<close> and \<^verbatim>\<open>match[0]\<close>.\<close>

record regExpExecArray =
  index :: nat
  match0 :: jsstring

text \<open>\<^verbatim>\<open>CODE_SPELL_MENTION\<close>\<close>

definition CODE_SPELL_MENTION :: jsstring where
  "CODE_SPELL_MENTION = js ''codespell''"

text \<open>
  The class \<^verbatim>\<open>CodespellDiagnostic\<close>: the fields of \<^verbatim>\<open>vscode.Diagnostic\<close> that the
  constructor sets (range, message, severity, and \<^verbatim>\<open>code\<close>) and the three fields of its
  own. \<open>CodespellDiagnostic\<close> is the object that the constructor makes when it returns.
\<close>

record codespellDiagnostic =
  diag_range :: vsRange
  diag_message :: jsstring
  diag_severity :: diagnosticSeverity
  diag_code :: jsstring
  diag_typo :: typo
  diag_token :: jsstring
  diag_suggestions :: "jsstring list"

definition CodespellDiagnostic :: "vsRange \<Rightarrow> typo \<Rightarrow> regExpExecArray \<Rightarrow> codespellDiagnostic" where
  "CodespellDiagnostic rng typo matched =
     \<lparr>diag_range = rng,
      diag_message = info typo,
      diag_severity =
        (case severity typo of
           Some sv \<Rightarrow> sv
         | None \<Rightarrow> if isCommon typo \<noteq> Some False then Warning else Information),
      diag_code = CODE_SPELL_MENTION,
      diag_typo = typo,
      diag_token = token typo,
      diag_suggestions = suggestions typo\<rparr>"

text \<open>
  What a call can throw. \<open>SyntaxError\<close> and \<open>TypeError\<close> are the exceptions of the
  language; \<open>Unsupported\<close> stands for a regular expression outside the model below.
\<close>

datatype thrown = SyntaxError | TypeError | Unsupported

text \<open>
  The expression \<^verbatim>\<open>new CodespellDiagnostic(range, typo, match)\<close>. The constructor begins
  with \<^verbatim>\<open>super(range, typo.info, ...)\<close>, and the constructor of \<^verbatim>\<open>vscode.Diagnostic\<close>
  throws a \<^verbatim>\<open>TypeError\<close> when its message is the empty string.
\<close>

definition newCodespellDiagnostic ::
    "vsRange \<Rightarrow> typo \<Rightarrow> regExpExecArray \<Rightarrow> thrown + codespellDiagnostic" where
  "newCodespellDiagnostic rng typo matched =
     (if info typo = [] then Inl TypeError else Inr (CodespellDiagnostic rng typo matched))"

subsection \<open>Escaping a token\<close>

definition backslash :: jschar where
  "backslash = 0x5C"

text \<open>
  \<^verbatim>\<open>escapeRegExp(text)\<close>: \<^verbatim>\<open>text.replace(/[-[\]{}()*+?.,\\^$|#\s]/g, '\\$&')\<close> puts a
  backslash in front of every code unit of the class.
\<close>

definition escapedClass :: "jschar \<Rightarrow> bool" where
  "escapedClass c = (c \<in> set (js ''-[]{}()*+?.,^$|#'') \<or> c = backslash \<or> whiteSpaceClass c)"

definition escapeRegExp :: "jsstring \<Rightarrow> jsstring" where
  "escapeRegExp text = concat (map (\<lambda>c. if escapedClass c then [backslash, c] else [c]) text)"

subsection \<open>Regular expressions\<close>

text \<open>
  \<^verbatim>\<open>RegExp\<close> is part of the language, not of the repository. The model reads a pattern
  the way ECMAScript does without the \<^verbatim>\<open>u\<close> flag, code unit by code unit:
  \<^item> a backslash followed by a code unit that is neither a letter nor a digit is an identity
    escape and stands for that code unit; a backslash at the end is a syntax error;
  \<^item> \<^verbatim>\<open>^\<close> and \<^verbatim>\<open>$\<close> are the line anchors (the flag \<^verbatim>\<open>m\<close> is set), \<^verbatim>\<open>.\<close> is any code
    unit but a line terminator;
  \<^item> any other code unit that is not a syntax character stands for itself.
  A backslash followed by a letter or a digit (a class, a control character, a back
  reference) and the syntax characters \<^verbatim>\<open>* + ? ( ) [ ] { } |\<close> (quantifiers, groups,
  classes, alternatives) are patterns outside this model: \<open>Unsupported\<close>.
\<close>

datatype regexTerm = PatternCharacter jschar | Dot | LineStart | LineEnd

definition lineTerminator :: "jschar \<Rightarrow> bool" where
  "lineTerminator c = (c \<in> set [0x0A, 0x0D, 0x2028, 0x2029])"

definition asciiLetterOrDigit :: "jschar \<Rightarrow> bool" where
  "asciiLetterOrDigit c = ((0x30 \<le> c \<and> c \<le> 0x39) \<or> (0x41 \<le> c \<and> c \<le> 0x5A) \<or> (0x61 \<le> c \<and> c \<le> 0x7A))"

fun parsePattern :: "jsstring \<Rightarrow> thrown + regexTerm list" where
  "parsePattern [] = Inr []"
| "parsePattern (c # cs) =
     (if c = backslash then
        (case cs of
           [] \<Rightarrow> Inl SyntaxError
         | d # ds \<Rightarrow>
             if asciiLetterOrDigit d then Inl Unsupported
             else (case parsePattern ds of Inl e \<Rightarrow> Inl e | Inr ts \<Rightarrow> Inr (PatternCharacter d # ts)))
      else if c \<in> set (js ''*+?()[]{}|'') then Inl Unsupported
      else
        (case parsePattern cs of
           Inl e \<Rightarrow> Inl e
         | Inr ts \<Rightarrow>
             Inr ((if c = of_char CHR ''^'' then LineStart
                   else if c = of_char CHR ''$'' then LineEnd
                   else if c = of_char CHR ''.'' then Dot
                   else PatternCharacter c) # ts)))"

text \<open>
  A regular expression object with the flags \<^verbatim>\<open>gm\<close>: its terms and \<^verbatim>\<open>lastIndex\<close>.
  \<open>newRegExp pattern\<close> is \<^verbatim>\<open>new RegExp(pattern, 'gm')\<close>.
\<close>

record regExp =
  terms :: "regexTerm list"
  lastIndex :: nat

definition newRegExp :: "jsstring \<Rightarrow> thrown + regExp" where
  "newRegExp pattern =
     (case parsePattern pattern of
        Inl e \<Rightarrow> Inl e
      | Inr ts \<Rightarrow> Inr \<lparr>terms = ts, lastIndex = 0\<rparr>)"

text \<open>
  \<open>matchTerms ts s i\<close>: the terms match \<open>s\<close> from the offset \<open>i\<close>; the result is the offset
  where the match ends.
\<close>

fun matchTerms :: "regexTerm list \<Rightarrow> jsstring \<Rightarrow> nat \<Rightarrow> nat option" where
  "matchTerms [] s i = Some i"
| "matchTerms (PatternCharacter c # ts) s i =
     (if i < length s \<and> s ! i = c then matchTerms ts s (Suc i) else None)"
| "matchTerms (Dot # ts) s i =
     (if i < length s \<and> \<not> lineTerminator (s ! i) then matchTerms ts s (Suc i) else None)"
| "matchTerms (LineStart # ts) s i =
     (if i = 0 \<or> (i \<le> length s \<and> lineTerminator (s ! (i - 1))) then matchTerms ts s i else None)"
| "matchTerms (LineEnd # ts) s i =
     (if i = length s \<or> (i < length s \<and> lineTerminator (s ! i)) then matchTerms ts s i else None)"

text \<open>
  The search of \<^verbatim>\<open>exec\<close>: the first offset from \<open>i\<close> on, up to the length of the text,
  where the terms match.
\<close>

function execFrom :: "regexTerm list \<Rightarrow> jsstring \<Rightarrow> nat \<Rightarrow> (nat \<times> nat) option" where
  "execFrom ts s i =
     (if length s < i then None
      else (case matchTerms ts s i of
              Some e \<Rightarrow> Some (i, e)
            | None \<Rightarrow> execFrom ts s (Suc i)))"
  by pat_completeness auto
termination
  by (relation "measure (\<lambda>(ts, s, i). Suc (length s) - i)") auto

declare execFrom.simps [simp del]

text \<open>
  \<^verbatim>\<open>regex.exec(s)\<close> for a global expression: the search starts at \<^verbatim>\<open>lastIndex\<close>; a match
  moves \<^verbatim>\<open>lastIndex\<close> to its end, a failure resets it to 0 and gives \<^verbatim>\<open>null\<close>.
\<close>

definition exec :: "regExp \<Rightarrow> jsstring \<Rightarrow> regExpExecArray option \<times> regExp" where
  "exec regex s =
     (case execFrom (terms regex) s (lastIndex regex) of
        None \<Rightarrow> (None, regex\<lparr>lastIndex := 0\<rparr>)
      | Some (i, e) \<Rightarrow> (Some \<lparr>index = i, match0 = take (e - i) (drop i s)\<rparr>, regex\<lparr>lastIndex := e\<rparr>))"

subsection \<open>The stores\<close>

text \<open>
  The state of the extension, keyed by the document's URI.
  \<^item> \<open>documentsToTypos\<close>. Modelled from the spec: \<^verbatim>\<open>DocumentsToTypos\<close> lives in
    spellcheck.ts, which is not under src/. Section 2 calls it the Typo Store, a "mapping
    from document identity to its current list of Typo records"; a document with no entry
    has had no analysis (section 3), and \<^verbatim>\<open>DocumentsToTypos.getTypos(doc)\<close> gives \<^verbatim>\<open>undefined\<close>
    for it.
  \<^item> \<open>codespellDiagnostics\<close>: the diagnostic collection of the module.
  \<^item> \<open>lastSavedContent\<close>: the map of \<^verbatim>\<open>subscribeDiagnosticsToDocumentChanges\<close>.
\<close>

record extensionState =
  documentsToTypos :: "jsstring \<rightharpoonup> typo list"
  codespellDiagnostics :: "jsstring \<rightharpoonup> codespellDiagnostic list"
  lastSavedContent :: "jsstring \<rightharpoonup> jsstring"

definition DocumentsToTypos_getTypos :: "textDocument \<Rightarrow> extensionState \<Rightarrow> typo list option" where
  "DocumentsToTypos_getTypos doc s = documentsToTypos s (uri doc)"

subsection \<open>Refreshing the diagnostics\<close>

text \<open>
  The \<^verbatim>\<open>while\<close> loop of \<^verbatim>\<open>refreshDiagnostics\<close> for one typo. It runs as long as
  \<^verbatim>\<open>exec\<close> finds a match, so it need not end: the value \<open>None\<close> is a loop that runs
  forever. \<open>Some (Inl e)\<close> is a loop that the exception \<open>e\<close> of the constructor ends,
  \<open>Some (Inr diagnostics)\<close> one that ends with \<^verbatim>\<open>null\<close> from \<^verbatim>\<open>exec\<close>.
\<close>

partial_function (option) matchLoop ::
    "textDocument \<Rightarrow> typo \<Rightarrow> regExp \<Rightarrow> jsstring \<Rightarrow> codespellDiagnostic list
     \<Rightarrow> (thrown + codespellDiagnostic list) option" where
  "matchLoop doc typo regex docText diagnostics =
     (case exec regex docText of
        (None, regex') \<Rightarrow> Some (Inr diagnostics)
      | (Some match, regex') \<Rightarrow>
          (let startPos = positionAt doc (index match);
               endPos = positionAt doc (index match + length (match0 match));
               rng = Range startPos endPos
           in case newCodespellDiagnostic rng typo match of
                Inl e \<Rightarrow> Some (Inl e)
              | Inr diagnostic \<Rightarrow>
                  matchLoop doc typo regex' docText (diagnostics @ [diagnostic])))"

text \<open>
  \<^verbatim>\<open>typos.forEach\<close>: a regular expression is made for every typo, and the loop adds the
  diagnostics of its matches. An exception of \<^verbatim>\<open>new RegExp\<close> or of the loop ends the
  whole call.
\<close>

fun forEachTypo ::
    "textDocument \<Rightarrow> jsstring \<Rightarrow> typo list \<Rightarrow> codespellDiagnostic list
     \<Rightarrow> (thrown + codespellDiagnostic list) option" where
  "forEachTypo doc docText [] diagnostics = Some (Inr diagnostics)"
| "forEachTypo doc docText (typo # typos) diagnostics =
     (case newRegExp (escapeRegExp (token typo)) of
        Inl e \<Rightarrow> Some (Inl e)
      | Inr regex \<Rightarrow>
          (case matchLoop doc typo regex docText diagnostics of
             None \<Rightarrow> None
           | Some (Inl e) \<Rightarrow> Some (Inl e)
           | Some (Inr diagnostics') \<Rightarrow> forEachTypo doc docText typos diagnostics'))"

text \<open>
  \<^verbatim>\<open>refreshDiagnostics(doc)\<close>. The result is \<open>None\<close> when the call does not return,
  \<open>Some (Inl e)\<close> when it throws and \<open>Some (Inr s')\<close> when it returns in the state \<open>s'\<close>.
\<close>

definition refreshDiagnostics ::
    "textDocument \<Rightarrow> extensionState \<Rightarrow> (thrown + extensionState) option" where
  "refreshDiagnostics doc s =
     (let typos = DocumentsToTypos_getTypos doc s;
          docText = getText doc
      in case typos of
           None \<Rightarrow> Some (Inr s)
         | Some typos \<Rightarrow>
             (case forEachTypo doc docText typos [] of
                None \<Rightarrow> None
              | Some (Inl e) \<Rightarrow> Some (Inl e)
              | Some (Inr diagnostics) \<Rightarrow>
                  Some (Inr (s\<lparr>codespellDiagnostics := (codespellDiagnostics s)(uri doc \<mapsto> diagnostics)\<rparr>))))"

section \<open>The typo source (chat.js)\<close>

text \<open>
  \<^verbatim>\<open>getCodeBlock(text)\<close>: the first group of
  \<^verbatim>\<open>/```[\s\S]*?\n([\s\S]*?)\n```/\<close>, trimmed, or \<^verbatim>\<open>null\<close>. The expression matches from
  the first fence of three backquotes: what follows up to the first newline is skipped,
  and the group is the text from there up to the first newline that a fence follows.
\<close>

definition fence :: jsstring where
  "fence = [0x60, 0x60, 0x60]"

definition getCodeBlock :: "jsstring \<Rightarrow> jsstring option" where
  "getCodeBlock text =
     (case indexOfFrom fence text 0 of
        None \<Rightarrow> None
      | Some p \<Rightarrow>
          (case indexOfFrom [nl] text (p + 3) of
             None \<Rightarrow> None
           | Some q \<Rightarrow>
               (case indexOfFrom (nl # fence) text (Suc q) of
                  None \<Rightarrow> None
                | Some r \<Rightarrow> Some (trim (take (r - Suc q) (drop (Suc q) text))))))"

text \<open>
  \<^verbatim>\<open>getTypos(code)\<close>, an \<^verbatim>\<open>async\<close> function: \<open>Inl e\<close> is a promise that is
  rejected.
  The two calls that leave the repository are parameters:
  \<^item> \<open>prompt code\<close> is the call of \<^verbatim>\<open>prompt\<close> with the request that is written around
    \<open>code\<close>; it goes to the language-model service, and its promise is rejected when the
    request fails;
  \<^item> \<open>parse\<close> is \<^verbatim>\<open>JSON.parse\<close>, read as a typo list; it is \<open>None\<close> when \<^verbatim>\<open>JSON.parse\<close>
    throws.
  Neither failure is caught in \<^verbatim>\<open>getTypos\<close>. An answer without a code block, or with
  an empty one, gives the empty list. The two \<^verbatim>\<open>console.log\<close> calls are left out.
\<close>

datatype adapterError = NetworkError | ParseError

definition getTypos ::
    "(jsstring \<Rightarrow> adapterError + jsstring) \<Rightarrow> (jsstring \<Rightarrow> typo list option) \<Rightarrow> jsstring
     \<Rightarrow> adapterError + typo list" where
  "getTypos prompt parse code =
     (case prompt code of
        Inl e \<Rightarrow> Inl e
      | Inr promptResult \<Rightarrow>
          (let codeBlock = getCodeBlock promptResult
           in case codeBlock of
                None \<Rightarrow> Inr []
              | Some block \<Rightarrow>
                  if block = [] then Inr []
                  else (case parse block of None \<Rightarrow> Inl ParseError | Some typos \<Rightarrow> Inr typos)))"

section \<open>Saving and closing a document\<close>

text \<open>
  Modelled from the spec: \<^verbatim>\<open>spellCheck\<close> lives in spellcheck.ts, which is not under src/.
  Section 4.4 has the save "invoke Typo Source Adapter on the concatenation of added
  blocks; on success, replace the document's Typo Store entry"; by section 7 a failure of
  the adapter is "treated as zero new typos for that save; prior Typo Store entry remains
  (not cleared)"; by section 5 the system must "discard results that arrive after a newer
  save's analysis has already been applied". \<open>spellCheckDone\<close> is what \<^verbatim>\<open>spellCheck\<close>
  does once the promise of \<^verbatim>\<open>getTypos\<close> is settled with \<open>answer\<close>; whether the answer
  arrives after a newer one was applied is the argument \<open>stale\<close>, the bookkeeping for it
  being in the file that is missing.
\<close>

definition spellCheckDone ::
    "textDocument \<Rightarrow> adapterError + typo list \<Rightarrow> bool \<Rightarrow> extensionState \<Rightarrow> extensionState" where
  "spellCheckDone doc answer stale s =
     (case answer of
        Inl e \<Rightarrow> s
      | Inr typos \<Rightarrow>
          if stale then s
          else s\<lparr>documentsToTypos := (documentsToTypos s)(uri doc \<mapsto> typos)\<rparr>)"

text \<open>
  The listener of \<^verbatim>\<open>onDidSaveTextDocument\<close> is an \<^verbatim>\<open>async\<close> function with one
  \<^verbatim>\<open>await\<close>. \<open>saveBegin\<close> is the part before the \<^verbatim>\<open>await\<close>: it reads the document and
  the snapshot and computes the differences; with no differences the listener goes straight
  to its last statement and returns, otherwise it waits for \<^verbatim>\<open>spellCheck\<close>, holding
  the values of its local variables. \<open>saveResume\<close> is the part after the \<^verbatim>\<open>await\<close>: the
  analysis has arrived, the diagnostics are refreshed from the document as it then is, and
  the snapshot is set to the content that \<open>saveBegin\<close> read. The listener has no
  \<^verbatim>\<open>try\<close>: an exception of \<^verbatim>\<open>refreshDiagnostics\<close> leaves it before the snapshot is set.
  The \<^verbatim>\<open>console.log\<close> call of the listener is left out.
\<close>

record pendingSave =
  pendingUri :: jsstring
  pendingContent :: jsstring
  pendingDifferences :: "jsstring list"

datatype saveStep = Returned extensionState | Awaiting pendingSave

definition saveBegin ::
    "(jsstring \<Rightarrow> jsstring \<Rightarrow> jsstring \<Rightarrow> jsstring) \<Rightarrow> textDocument \<Rightarrow> extensionState \<Rightarrow> saveStep" where
  "saveBegin createPatch document s =
     (let documentUri = uri document;
          currentContent = getText document;
          previousContent = (case lastSavedContent s documentUri of None \<Rightarrow> [] | Some c \<Rightarrow> c);
          differences = findDifferences createPatch previousContent currentContent
      in if \<not> isEmpty differences
         then Awaiting \<lparr>pendingUri = documentUri, pendingContent = currentContent,
                         pendingDifferences = differences\<rparr>
         else Returned (s\<lparr>lastSavedContent := (lastSavedContent s)(documentUri \<mapsto> currentContent)\<rparr>))"

definition saveResume ::
    "adapterError + typo list \<Rightarrow> bool \<Rightarrow> textDocument \<Rightarrow> pendingSave \<Rightarrow> extensionState
     \<Rightarrow> (thrown + extensionState) option" where
  "saveResume answer stale document pending s =
     (case refreshDiagnostics document (spellCheckDone document answer stale s) of
        None \<Rightarrow> None
      | Some (Inl e) \<Rightarrow> Some (Inl e)
      | Some (Inr s') \<Rightarrow>
          Some (Inr (s'\<lparr>lastSavedContent :=
                           (lastSavedContent s')(pendingUri pending \<mapsto> pendingContent pending)\<rparr>)))"

text \<open>
  A save whose listener runs to its end before anything else happens, so that its
  analysis is the newest.
\<close>

definition onDidSaveTextDocument ::
    "(jsstring \<Rightarrow> jsstring \<Rightarrow> jsstring \<Rightarrow> jsstring) \<Rightarrow> (jsstring \<Rightarrow> adapterError + jsstring)
     \<Rightarrow> (jsstring \<Rightarrow> typo list option) \<Rightarrow> textDocument \<Rightarrow> extensionState
     \<Rightarrow> (thrown + extensionState) option" where
  "onDidSaveTextDocument createPatch prompt parse document s =
     (case saveBegin createPatch document s of
        Returned s' \<Rightarrow> Some (Inr s')
      | Awaiting pending \<Rightarrow>
          saveResume (getTypos prompt parse (concat (pendingDifferences pending))) False
            document pending s)"

text \<open>The listener of \<^verbatim>\<open>onDidCloseTextDocument\<close>: \<^verbatim>\<open>codespellDiagnostics.delete(doc.uri)\<close>.\<close>

definition onDidCloseTextDocument :: "textDocument \<Rightarrow> extensionState \<Rightarrow> extensionState" where
  "onDidCloseTextDocument doc s =
     s\<lparr>codespellDiagnostics := (codespellDiagnostics s)(uri doc := None)\<rparr>"

section \<open>What the specification says about occurrences\<close>

text \<open>
  \<open>literalAt t s i\<close>: the token \<open>t\<close> stands in the text \<open>s\<close> at the offset \<open>i\<close>, code unit
  for code unit.
\<close>

definition literalAt :: "jsstring \<Rightarrow> jsstring \<Rightarrow> nat \<Rightarrow> bool" where
  "literalAt t s i = (i + length t \<le> length s \<and> take (length t) (drop i s) = t)"

text \<open>
  Section 4.2: "Scan docText left-to-right, non-overlapping, recording every match
  start/end offset". \<open>spec_occurrencesFrom t s i\<close> are the start offsets that this scan
  of a non-empty token records from the offset \<open>i\<close> on: an occurrence is recorded and the
  scan goes on behind it, otherwise it goes on at the next offset.
\<close>

function spec_occurrencesFrom :: "jsstring \<Rightarrow> jsstring \<Rightarrow> nat \<Rightarrow> nat list" where
  "spec_occurrencesFrom t s i =
     (if t = [] \<or> length s < i + length t then []
      else if literalAt t s i then i # spec_occurrencesFrom t s (i + length t)
      else spec_occurrencesFrom t s (Suc i))"
  by pat_completeness auto
termination
proof (relation "measure (\<lambda>(t, s, i). Suc (length s) - i)")
  fix t s :: jsstring and i :: nat
  assume "\<not> (t = [] \<or> length s < i + length t)"
  then obtain c cs where "t = c # cs" "i + length t \<le> length s"
    by (cases t) auto
  then show "((t, s, i + length t), (t, s, i)) \<in> measure (\<lambda>(t, s, i). Suc (length s) - i)"
    by simp
qed auto

declare spec_occurrencesFrom.simps [simp del]

definition spec_occurrences :: "jsstring \<Rightarrow> jsstring \<Rightarrow> nat list" where
  "spec_occurrences t s = spec_occurrencesFrom t s 0"

section \<open>Example data\<close>

text \<open>The data on which the theorems below are evaluated.\<close>

definition exampleUri :: jsstring where
  "exampleUri = js ''file:///doc.txt''"

definition tehTypo :: typo where
  "tehTypo = \<lparr>token = js ''teh'', suggestions = [js ''the''], info = js ''misspelling'',
               severity = None, isCommon = None\<rparr>"

definition emptyTypo :: typo where
  "emptyTypo = \<lparr>token = [], suggestions = [], info = js ''nothing'',
                 severity = None, isCommon = None\<rparr>"

text \<open>
  The typo \<^verbatim>\<open>teh\<close> with an empty \<open>info\<close>, the empty token with an empty \<open>info\<close>, a token
  of pattern characters, a token with a newline in it, and a token that overlaps itself.
\<close>

definition noInfoTypo :: typo where
  "noInfoTypo = tehTypo\<lparr>info := []\<rparr>"

definition emptyNoInfoTypo :: typo where
  "emptyNoInfoTypo = emptyTypo\<lparr>info := []\<rparr>"

definition patternTypo :: typo where
  "patternTypo = tehTypo\<lparr>token := js ''a.b*c''\<rparr>"

definition newlineTypo :: typo where
  "newlineTypo = tehTypo\<lparr>token := js ''a\<newline>b''\<rparr>"

definition aaTypo :: typo where
  "aaTypo = tehTypo\<lparr>token := js ''aa''\<rparr>"

definition patternDocument :: textDocument where
  "patternDocument = \<lparr>uri = exampleUri, getText = js ''axbbc a.b*c a\<newline>b''\<rparr>"

definition aaaDocument :: textDocument where
  "aaaDocument = \<lparr>uri = exampleUri, getText = js ''aaa''\<rparr>"

definition tehDocument :: textDocument where
  "tehDocument = \<lparr>uri = exampleUri, getText = js ''teh cat\<newline>teh''\<rparr>"

definition emptyState :: extensionState where
  "emptyState = \<lparr>documentsToTypos = Map.empty, codespellDiagnostics = Map.empty,
                  lastSavedContent = Map.empty\<rparr>"

text \<open>
  A document whose saved snapshot is \<^verbatim>\<open>a\n\<close>, its content after a first edit,
  \<^verbatim>\<open>a\nb\n\<close>, and after a second edit, \<^verbatim>\<open>a\nb\nc\n\<close>, with the typos that the analyses of
  the two edits find.
\<close>

definition savedA :: extensionState where
  "savedA = emptyState\<lparr>lastSavedContent := [exampleUri \<mapsto> js ''a\<newline>''],
                         documentsToTypos := [exampleUri \<mapsto> [tehTypo]]\<rparr>"

definition documentAB :: textDocument where
  "documentAB = \<lparr>uri = exampleUri, getText = js ''a\<newline>b\<newline>''\<rparr>"

definition documentABC :: textDocument where
  "documentABC = \<lparr>uri = exampleUri, getText = js ''a\<newline>b\<newline>c\<newline>''\<rparr>"

definition typoB :: typo where
  "typoB = tehTypo\<lparr>token := js ''b''\<rparr>"

definition typoC :: typo where
  "typoC = tehTypo\<lparr>token := js ''c''\<rparr>"

section \<open>Properties of the change detector\<close>

lemma occursIn_iff: "occursIn sep s = (\<exists>i \<le> length s. startsWith (drop i s) sep)"
proof (induction s)
  case Nil
  then show ?case by simp
next
  case (Cons c cs)
  have "(\<exists>i \<le> length (c # cs). startsWith (drop i (c # cs)) sep)
        = (startsWith (c # cs) sep \<or> (\<exists>i \<le> length cs. startsWith (drop i cs) sep))"
  proof
    assume "\<exists>i \<le> length (c # cs). startsWith (drop i (c # cs)) sep"
    then obtain i where i: "i \<le> length (c # cs)" "startsWith (drop i (c # cs)) sep" by blast
    then show "startsWith (c # cs) sep \<or> (\<exists>i \<le> length cs. startsWith (drop i cs) sep)"
      by (cases i) auto
  next
    assume "startsWith (c # cs) sep \<or> (\<exists>i \<le> length cs. startsWith (drop i cs) sep)"
    then show "\<exists>i \<le> length (c # cs). startsWith (drop i (c # cs)) sep"
    proof
      assume "startsWith (c # cs) sep"
      then have "0 \<le> length (c # cs) \<and> startsWith (drop 0 (c # cs)) sep" by simp
      then show ?thesis by blast
    next
      assume "\<exists>i \<le> length cs. startsWith (drop i cs) sep"
      then obtain i where "i \<le> length cs" "startsWith (drop i cs) sep" by blast
      then have "Suc i \<le> length (c # cs) \<and> startsWith (drop (Suc i) (c # cs)) sep" by simp
      then show ?thesis by blast
    qed
  qed
  with Cons show ?case by simp
qed

lemma join_Cons: "join sep (x # xs) = x @ concat (map (\<lambda>l. sep @ l) xs)"
  by (induction xs arbitrary: x) auto

lemma join_terminated: "ls \<noteq> [] \<Longrightarrow> join [c] ls @ [c] = concat (map (\<lambda>l. l @ [c]) ls)"
  by (induction "[c]" ls rule: join.induct) auto

lemma split_acc_char_skip:
  "c \<notin> set p \<Longrightarrow> split_acc [c] acc (p @ c # rest) = (acc @ p) # split_acc [c] [] rest"
  by (induction p arbitrary: acc) (auto simp: startsWith_def)

lemma split_acc_lines:
  "\<forall>l \<in> set ls. c \<notin> set l \<Longrightarrow> split_acc [c] [] (concat (map (\<lambda>l. l @ [c]) ls)) = ls @ [[]]"
  by (induction ls) (auto simp: split_acc_char_skip)

lemma split_lines:
  "\<forall>l \<in> set ls. nl \<notin> set l \<Longrightarrow> split (js ''\<newline>'') (concat (map (\<lambda>l. l @ [nl]) ls)) = ls @ [[]]"
  using split_acc_lines [of ls nl] by (simp add: split_def js_def nl_def)

lemma split_acc_absent:
  "sep \<noteq> [] \<Longrightarrow> \<not> occursIn sep s \<Longrightarrow> split_acc sep acc s = [acc @ s]"
proof (induction s arbitrary: acc)
  case Nil
  then show ?case by simp
next
  case (Cons c cs)
  from Cons.prems(2) have here: "\<not> startsWith (c # cs) sep"
    unfolding occursIn_iff by (metis drop0 le0)
  have "\<not> occursIn sep cs"
  proof
    assume "occursIn sep cs"
    then obtain i where "i \<le> length cs" "startsWith (drop i cs) sep"
      unfolding occursIn_iff by blast
    then have "Suc i \<le> length (c # cs) \<and> startsWith (drop (Suc i) (c # cs)) sep" by simp
    with Cons.prems(2) show False unfolding occursIn_iff by blast
  qed
  with Cons.IH [OF Cons.prems(1), of "acc @ [c]"] here show ?case by simp
qed

lemma split_acc_front:
  "sep \<noteq> [] \<Longrightarrow> split_acc sep acc (sep @ rest) = acc # split_acc sep [] rest"
  by (cases sep) (auto simp: startsWith_def)

lemma nl_notin_digit: "k < 10 \<Longrightarrow> js ''0123456789'' ! k \<noteq> nl"
proof -
  assume "k < 10"
  then have "js ''0123456789'' ! k \<in> set (js ''0123456789'')"
    by (intro nth_mem) (simp add: js_def)
  then show ?thesis by (auto simp: js_def nl_def)
qed

lemma nl_notin_decimal: "nl \<notin> set (decimal n)"
proof (induction n rule: decimal.induct)
  case (1 n)
  show ?case
  proof (cases "n < 10")
    case True
    then show ?thesis using nl_notin_digit [of n] by (subst decimal.simps) auto
  next
    case False
    then show ?thesis using 1 nl_notin_digit [of "n mod 10"] by (subst decimal.simps) auto
  qed
qed

lemma nl_notin_hunkHeader: "nl \<notin> set (hunkHeader a b c d)"
  by (simp add: hunkHeader_def nl_notin_decimal) (simp add: js_def nl_def)

lemma hunkHeader_not_added: "\<not> startsWith (hunkHeader a b c d) (js ''+'')"
  by (simp add: hunkHeader_def startsWith_def js_def)

lemma added_lines_of_patch:
  assumes "\<forall>l \<in> set ctx. nl \<notin> set l" "\<forall>l \<in> set added. nl \<notin> set l" "nl \<notin> set fileName"
  shows "filter (\<lambda>line. startsWith line (js ''+''))
           (split (js ''\<newline>'') (appendPatch fileName ctx added))
         = (js ''+++ '' @ fileName) # map (\<lambda>l. of_char CHR ''+'' # l) added"
proof -
  let ?ctx = "drop (length ctx - 4) ctx"
  let ?hunk = "if added = [] then []
     else hunkHeader (length ctx - length ?ctx + 1) (length ?ctx) (length ctx - length ?ctx + 1) (length ?ctx + length added)
          # map (\<lambda>l. of_char CHR '' '' # l) ?ctx @ map (\<lambda>l. of_char CHR ''+'' # l) added"
  let ?ls = "patchHeader fileName @ ?hunk"
  have patch_text: "appendPatch fileName ctx added = concat (map (\<lambda>l. l @ [nl]) ?ls)"
    unfolding appendPatch_def formatPatch_def Let_def
    by (subst join_terminated) (simp_all add: patchHeader_def)
  have "set ?ctx \<subseteq> set ctx" by (rule set_drop_subset)
  with assms(1) have ctx: "\<forall>l \<in> set ?ctx. nl \<notin> set l" by blast
  have nonl: "\<forall>l \<in> set ?ls. nl \<notin> set l"
    using ctx assms(2,3) by (auto simp: patchHeader_def nl_notin_hunkHeader) (simp_all add: js_def nl_def)
  have patch_split: "split (js ''\<newline>'') (appendPatch fileName ctx added) = ?ls @ [[]]"
    unfolding patch_text by (rule split_lines [OF nonl])
  have f1: "filter (\<lambda>line. startsWith line (js ''+'')) (patchHeader fileName) = [js ''+++ '' @ fileName]"
    by (simp add: patchHeader_def startsWith_def js_def)
  have f2: "filter (\<lambda>line. startsWith line (js ''+'')) (map (\<lambda>l. of_char CHR '' '' # l) ?ctx) = []"
    by (simp add: startsWith_def js_def)
  have f3: "filter (\<lambda>line. startsWith line (js ''+'')) (map (\<lambda>l. of_char CHR ''+'' # l) added)
            = map (\<lambda>l. of_char CHR ''+'' # l) added"
    by (simp add: startsWith_def js_def)
  have f4: "filter (\<lambda>line. startsWith line (js ''+'')) ?hunk = map (\<lambda>l. of_char CHR ''+'' # l) added"
    using f2 f3 hunkHeader_not_added by (cases "added = []") simp_all
  have f5: "\<not> startsWith [] (js ''+'')"
    by (simp add: startsWith_def js_def)
  show ?thesis unfolding patch_split filter_append f1 f4 using f5 by simp
qed

lemma occursIn_block:
  assumes sep: "sep \<noteq> []" "c \<notin> set sep"
    and ls: "\<forall>l \<in> set ls. \<not> occursIn sep l"
  shows "\<not> occursIn sep (concat (map (\<lambda>l. c # l) ls))"
  using ls
proof (induction ls)
  case Nil
  with sep show ?case by (simp add: occursIn_iff startsWith_def)
next
  case (Cons l ls)
  let ?rest = "concat (map (\<lambda>l. c # l) ls)"
  from Cons have IH: "\<not> occursIn sep ?rest" and l: "\<not> occursIn sep l" by simp_all
  have "\<not> startsWith (drop i (c # l @ ?rest)) sep" for i
  proof
    assume a: "startsWith (drop i (c # l @ ?rest)) sep"
    show False
    proof (cases i)
      case 0
      with a sep show False by (cases sep) (auto simp: startsWith_def)
    next
      case (Suc j)
      with a have b: "take (length sep) (drop j l @ drop (j - length l) ?rest) = sep"
        by (simp add: startsWith_def)
      show False
      proof (cases "j \<le> length l")
        case False
        with b have "startsWith (drop (j - length l) ?rest) sep" by (simp add: startsWith_def)
        moreover have "startsWith (drop (length ?rest) ?rest) sep" if "\<not> j - length l \<le> length ?rest"
          using that calculation by simp
        ultimately show False using IH unfolding occursIn_iff
          by (metis le_refl)
      next
        case True
        show False
        proof (cases "length sep \<le> length (drop j l)")
          case True
          with b have "startsWith (drop j l) sep" by (simp add: startsWith_def)
          with \<open>j \<le> length l\<close> l show False unfolding occursIn_iff by blast
        next
          case False
          with True b have c: "drop j l @ take (length sep - (length l - j)) ?rest = sep"
            by simp
          show False
          proof (cases ls)
            case Nil
            with c False show False by auto
          next
            case (Cons l' ls')
            from False obtain k where k: "length sep - (length l - j) = Suc k"
              by (cases "length sep - (length l - j)") auto
            from Cons have "?rest = c # l' @ concat (map (\<lambda>l. c # l) ls')" by simp
            with c k have "drop j l @ c # take k (l' @ concat (map (\<lambda>l. c # l) ls')) = sep"
              by simp
            then have "c \<in> set sep" by auto
            with sep show False by simp
          qed
        qed
      qed
    qed
  qed
  then show ?case by (simp add: occursIn_iff)
qed

lemma extractAddedLines_appendPatch:
  assumes "\<forall>l \<in> set old. nl \<notin> set l" "\<forall>l \<in> set added. nl \<notin> set l"
    and "\<forall>l \<in> set added. \<not> occursIn (js ''++ code'') l"
  shows "extractAddedLines (appendPatch (js ''code'') old added)
         = (if added = [] then [] else [concat (map (\<lambda>l. nl # l) added)])"
proof -
  let ?sep = "js ''++ code''"
  let ?rest = "concat (map (\<lambda>l. nl # l) added)"
  have plus: "filter (\<lambda>line. startsWith line (js ''+'')) (split (js ''\<newline>'') (appendPatch (js ''code'') old added))
              = (js ''+++ '' @ js ''code'') # map (\<lambda>l. of_char CHR ''+'' # l) added"
    by (rule added_lines_of_patch [OF assms(1,2)]) (simp add: js_def nl_def)
  have sliced: "map (\<lambda>line. slice 1 line) ((js ''+++ '' @ js ''code'') # map (\<lambda>l. of_char CHR ''+'' # l) added)
                = ?sep # added"
    by (simp add: slice_def js_def comp_def)
  have joined: "join (js ''\<newline>'') (?sep # added) = ?sep @ ?rest"
  proof -
    have "(\<lambda>l. js ''\<newline>'' @ l) = (\<lambda>l. nl # l)"
      by (simp add: js_def nl_def)
    then show ?thesis by (simp add: join_Cons)
  qed
  have sep: "?sep \<noteq> []" "nl \<notin> set ?sep" by (simp_all add: js_def nl_def)
  have absent: "\<not> occursIn ?sep ?rest"
    by (rule occursIn_block [OF sep assms(3)])
  have pieces: "split ?sep (?sep @ ?rest) = [[], ?rest]"
    using sep(1) by (simp add: split_def split_acc_front split_acc_absent [OF sep(1) absent])
  show ?thesis
    unfolding extractAddedLines_def plus sliced joined pieces
    by (cases added) (simp_all add: isEmpty_def)
qed

lemma createPatch_prefix_same: "createPatch_prefix fileName x x = formatPatch fileName []"
proof -
  have "dropCommon xs xs = ([], [])" for xs
    by (induction xs) simp_all
  then show ?thesis by (simp add: createPatch_prefix_def)
qed

lemma linesOf_line:
  "nl \<notin> set l \<Longrightarrow> linesOf acc (l @ nl # rest) = (acc @ l @ [nl]) # linesOf [] rest"
  by (induction l arbitrary: acc) auto

lemma linesOf_unlines:
  "\<forall>l \<in> set ls. nl \<notin> set l \<Longrightarrow> linesOf [] (unlines ls) = map (\<lambda>l. l @ [nl]) ls"
  by (induction ls) (simp_all add: unlines_def linesOf_line)

lemma dropCommon_append: "dropCommon xs (xs @ ys) = ([], ys)"
proof (induction xs)
  case Nil
  then show ?case by (cases ys) simp_all
next
  case (Cons x xs)
  then show ?case by simp
qed

lemma hunkLines_complete:
  "concat (map (hunkLine m \<circ> (\<lambda>l. l @ [nl])) ls) = map (\<lambda>l. m # l) ls"
  by (induction ls) (simp_all add: hunkLine_def)

lemma createPatch_prefix_append:
  assumes "\<forall>l \<in> set (old @ added). nl \<notin> set l"
  shows "createPatch_prefix fileName (unlines old) (unlines (old @ added)) = appendPatch fileName old added"
proof -
  let ?t = "\<lambda>l. l @ [nl]"
  from assms have o: "linesOf [] (unlines old) = map ?t old"
    by (intro linesOf_unlines) simp
  from assms have n: "linesOf [] (unlines (old @ added)) = map ?t old @ map ?t added"
    by (subst linesOf_unlines) simp_all
  have ctx: "drop (length old - 4) (map ?t old) = map ?t (drop (length old - 4) old)"
    by (simp add: drop_map)
  show ?thesis
    unfolding createPatch_prefix_def o n dropCommon_append appendPatch_def Let_def
    by (simp add: ctx hunkLines_complete del: map_append)
qed

lemma example_patch:
  "createPatch_prefix (js ''code'') (js ''foo\<newline>bar\<newline>'') (js ''foo\<newline>bar\<newline>baz\<newline>'')
   = appendPatch (js ''code'') [js ''foo'', js ''bar''] [js ''baz'']"
  by (simp add: createPatch_prefix_def appendPatch_def js_def nl_def hunkLine_def)

subsection \<open>Appended lines\<close>

text \<open>
  C1 (as amended). When the new text is the old text, made of complete lines, with
  complete lines appended, and the patch keeps the old lines as context and marks the
  appended ones as added, \<open>findDifferences\<close> returns nothing when no line was appended
  and otherwise exactly one block: the appended lines in their order, each preceded by a
  newline, provided no appended line contains the token \<^verbatim>\<open>++ code\<close>. No line of the old
  text is in the block and the block is not empty.
\<close>

theorem findDifferences_appended_lines:
  assumes "createPatch (js ''code'') (unlines old) (unlines (old @ added))
           = appendPatch (js ''code'') old added"
    and "\<forall>l \<in> set (old @ added). nl \<notin> set l"
    and "\<forall>l \<in> set added. \<not> occursIn (js ''++ code'') l"
  shows "findDifferences createPatch (unlines old) (unlines (old @ added))
         = (if added = [] then [] else [concat (map (\<lambda>l. nl # l) added)])"
  using assms extractAddedLines_appendPatch [of old added]
  by (simp add: findDifferences_def)

text \<open>
  The instance of C1 for the texts \<^verbatim>\<open>foo\nbar\n\<close> and \<^verbatim>\<open>foo\nbar\nbaz\n\<close>: the only
  block is \<^verbatim>\<open>\nbaz\<close>.
\<close>

theorem findDifferences_appended_lines_witness:
  "findDifferences createPatch_prefix (js ''foo\<newline>bar\<newline>'') (js ''foo\<newline>bar\<newline>baz\<newline>'')
   = [js ''\<newline>baz'']"
  using findDifferences_appended_lines [of createPatch_prefix "[js ''foo'', js ''bar'']" "[js ''baz'']"]
    createPatch_prefix_append [of "[js ''foo'', js ''bar'']" "[js ''baz'']" "js ''code''"]
  by (simp add: unlines_def startsWith_def js_def nl_def)

text \<open>
  C1 as stated fails on its own example: the block that comes back begins with the newline
  that \<open>join\<close> wrote after the header token, so the result is not \<^verbatim>\<open>["baz"]\<close>.
\<close>

theorem findDifferences_baz_counterexample:
  "findDifferences createPatch_prefix (js ''foo\<newline>bar\<newline>'') (js ''foo\<newline>bar\<newline>baz\<newline>'')
   \<noteq> [js ''baz'']"
proof -
  have "extractAddedLines (appendPatch (js ''code'') [js ''foo'', js ''bar''] [js ''baz''])
        = [concat (map (\<lambda>l. nl # l) [js ''baz''])]"
    by (subst extractAddedLines_appendPatch) (simp_all add: startsWith_def js_def nl_def)
  then show ?thesis
    by (simp add: findDifferences_def example_patch)
qed

subsection \<open>Equal texts, order and effects\<close>

lemma extractAddedLines_formatPatch:
  assumes nonl: "\<forall>l \<in> set hunkLines. nl \<notin> set l"
    and notok: "\<forall>l \<in> set hunkLines. startsWith l (js ''+'') \<longrightarrow> \<not> occursIn (js ''++ code'') (slice 1 l)"
  shows "extractAddedLines (formatPatch (js ''code'') hunkLines)
         = (if filter (\<lambda>l. startsWith l (js ''+'')) hunkLines = [] then []
            else [concat (map (\<lambda>l. nl # slice 1 l) (filter (\<lambda>l. startsWith l (js ''+'')) hunkLines))])"
proof -
  let ?sep = "js ''++ code''"
  let ?plus = "filter (\<lambda>l. startsWith l (js ''+'')) hunkLines"
  let ?added = "map (\<lambda>line. slice 1 line) ?plus"
  let ?rest = "concat (map (\<lambda>l. nl # l) ?added)"
  let ?ls = "patchHeader (js ''code'') @ hunkLines"
  have patch_text: "formatPatch (js ''code'') hunkLines = concat (map (\<lambda>l. l @ [nl]) ?ls)"
    unfolding formatPatch_def by (subst join_terminated) (simp_all add: patchHeader_def)
  have header_nonl: "\<forall>l \<in> set (patchHeader (js ''code'')). nl \<notin> set l"
    by (simp add: patchHeader_def js_def nl_def)
  with nonl have all_nonl: "\<forall>l \<in> set ?ls. nl \<notin> set l" by auto
  have patch_split: "split (js ''\<newline>'') (formatPatch (js ''code'') hunkLines) = ?ls @ [[]]"
    unfolding patch_text by (rule split_lines [OF all_nonl])
  have f1: "filter (\<lambda>line. startsWith line (js ''+'')) (patchHeader (js ''code'')) = [js ''+++ '' @ js ''code'']"
    by (simp add: patchHeader_def startsWith_def js_def)
  have f5: "\<not> startsWith [] (js ''+'')"
    by (simp add: startsWith_def js_def)
  have plus: "filter (\<lambda>line. startsWith line (js ''+'')) (split (js ''\<newline>'') (formatPatch (js ''code'') hunkLines))
              = (js ''+++ '' @ js ''code'') # ?plus"
    unfolding patch_split filter_append f1 using f5 by simp
  have sliced: "map (\<lambda>line. slice 1 line) ((js ''+++ '' @ js ''code'') # ?plus) = ?sep # ?added"
    by (simp add: slice_def js_def)
  have joined: "join (js ''\<newline>'') (?sep # ?added) = ?sep @ ?rest"
  proof -
    have "(\<lambda>l. js ''\<newline>'' @ l) = (\<lambda>l. nl # l)"
      by (simp add: js_def nl_def)
    then show ?thesis by (simp add: join_Cons)
  qed
  have sep: "?sep \<noteq> []" "nl \<notin> set ?sep" by (simp_all add: js_def nl_def)
  from notok have "\<forall>l \<in> set ?added. \<not> occursIn ?sep l" by auto
  then have absent: "\<not> occursIn ?sep ?rest"
    by (rule occursIn_block [OF sep])
  have "split ?sep (?sep @ rest) = [[], rest]" if "\<not> occursIn ?sep rest" for rest
    using sep(1) by (simp add: split_def split_acc_front split_acc_absent [OF sep(1) that])
  from this [OF absent] have pieces: "split ?sep (?sep @ ?rest) = [[], ?rest]" .
  have rest: "?rest = concat (map (\<lambda>l. nl # slice 1 l) ?plus)"
    by (simp add: comp_def)
  show ?thesis
  proof (cases "?plus = []")
    case True
    then show ?thesis
      unfolding extractAddedLines_def plus sliced joined pieces by (simp add: isEmpty_def)
  next
    case False
    then obtain l ls where "?plus = l # ls" by (cases ?plus) auto
    then have "?rest \<noteq> []" by simp
    with False rest show ?thesis
      unfolding extractAddedLines_def plus sliced joined pieces by (simp add: isEmpty_def)
  qed
qed

text \<open>
  C8. For every text \<open>x\<close>, \<open>findDifferences\<close> of \<open>x\<close> and \<open>x\<close> is the empty sequence,
  the patch of a text against itself having no hunk. The function is pure: what it
  returns is a function of its two texts (and of the differ), whatever the console holds,
  and all it does besides is to log the patch and the result, logging being outside the
  scope of the specification (section 1). It preserves the order:
  for every patch of the differ, whose lines hold no newline and whose added lines do not
  hold the token \<^verbatim>\<open>++ code\<close>, the block that is returned is made of the added lines of
  the patch, in the order of the patch, each without its marker and preceded by a newline;
  no other line of the patch is in it, and there is no block when no line is added.
\<close>

theorem findDifferences_same_text:
  "(createPatch (js ''code'') x x = formatPatch (js ''code'') []
      \<longrightarrow> findDifferences createPatch x x = [])
   \<and> findDifferencesLogged createPatch code1 code2 console
       = (findDifferences createPatch code1 code2,
          console @ [LogText (js ''addedLines1'') (createPatch (js ''code'') code1 code2),
                     LogList (js ''addedLines'') (findDifferences createPatch code1 code2)])
   \<and> (createPatch (js ''code'') code1 code2 = formatPatch (js ''code'') hunkLines
        \<and> (\<forall>l \<in> set hunkLines. nl \<notin> set l)
        \<and> (\<forall>l \<in> set hunkLines. startsWith l (js ''+'') \<longrightarrow> \<not> occursIn (js ''++ code'') (slice 1 l))
      \<longrightarrow> findDifferences createPatch code1 code2
          = (if filter (\<lambda>l. startsWith l (js ''+'')) hunkLines = [] then []
             else [concat (map (\<lambda>l. nl # slice 1 l)
                                (filter (\<lambda>l. startsWith l (js ''+'')) hunkLines))]))"
proof (intro conjI impI)
  assume "createPatch (js ''code'') x x = formatPatch (js ''code'') []"
  with extractAddedLines_formatPatch [of "[]"] show "findDifferences createPatch x x = []"
    by (simp add: findDifferences_def)
next
  show "findDifferencesLogged createPatch code1 code2 console
       = (findDifferences createPatch code1 code2,
          console @ [LogText (js ''addedLines1'') (createPatch (js ''code'') code1 code2),
                     LogList (js ''addedLines'') (findDifferences createPatch code1 code2)])"
    by (simp add: findDifferencesLogged_def findDifferences_def Let_def)
next
  assume a: "createPatch (js ''code'') code1 code2 = formatPatch (js ''code'') hunkLines
        \<and> (\<forall>l \<in> set hunkLines. nl \<notin> set l)
        \<and> (\<forall>l \<in> set hunkLines. startsWith l (js ''+'') \<longrightarrow> \<not> occursIn (js ''++ code'') (slice 1 l))"
  then have "extractAddedLines (formatPatch (js ''code'') hunkLines)
         = (if filter (\<lambda>l. startsWith l (js ''+'')) hunkLines = [] then []
            else [concat (map (\<lambda>l. nl # slice 1 l) (filter (\<lambda>l. startsWith l (js ''+'')) hunkLines))])"
    by (intro extractAddedLines_formatPatch) simp_all
  with a show "findDifferences createPatch code1 code2
          = (if filter (\<lambda>l. startsWith l (js ''+'')) hunkLines = [] then []
             else [concat (map (\<lambda>l. nl # slice 1 l)
                                (filter (\<lambda>l. startsWith l (js ''+'')) hunkLines))])"
    by (simp add: findDifferences_def)
qed

text \<open>
  The instance of C8 for the text \<^verbatim>\<open>foo\nbar\n\<close> against itself, and for the lines
  \<^verbatim>\<open>baz\<close> and \<^verbatim>\<open>qux\<close> appended to it: they come back in this order, and the console has
  the two entries.
\<close>

theorem findDifferences_same_text_witness:
  "findDifferences createPatch_prefix (js ''foo\<newline>bar\<newline>'') (js ''foo\<newline>bar\<newline>'') = []
   \<and> findDifferencesLogged createPatch_prefix (js ''foo\<newline>bar\<newline>'') (js ''foo\<newline>bar\<newline>baz\<newline>qux\<newline>'') []
     = ([js ''\<newline>baz\<newline>qux''],
        [LogText (js ''addedLines1'')
           (createPatch_prefix (js ''code'') (js ''foo\<newline>bar\<newline>'') (js ''foo\<newline>bar\<newline>baz\<newline>qux\<newline>'')),
         LogList (js ''addedLines'') [js ''\<newline>baz\<newline>qux'']])"
proof -
  let ?old = "js ''foo\<newline>bar\<newline>''" and ?new = "js ''foo\<newline>bar\<newline>baz\<newline>qux\<newline>''"
  let ?hunk = "[hunkHeader 1 2 1 4, js '' foo'', js '' bar'', js ''+baz'', js ''+qux'']"
  have texts: "?old = unlines [js ''foo'', js ''bar'']"
    "?new = unlines ([js ''foo'', js ''bar''] @ [js ''baz'', js ''qux''])"
    by (simp_all add: unlines_def js_def nl_def)
  have header: "hunkHeader (Suc 0) (Suc (Suc 0)) (Suc 0) (Suc (Suc (Suc (Suc 0)))) = hunkHeader 1 2 1 4"
    by (simp add: eval_nat_numeral)
  have patch: "createPatch_prefix (js ''code'') ?old ?new = formatPatch (js ''code'') ?hunk"
    unfolding texts
    by (subst createPatch_prefix_append) (simp_all add: appendPatch_def js_def nl_def header)
  have nonl: "\<forall>l \<in> set ?hunk. nl \<notin> set l"
    by (simp add: nl_notin_hunkHeader) (simp add: js_def nl_def)
  have plus: "filter (\<lambda>l. startsWith l (js ''+'')) ?hunk = [js ''+baz'', js ''+qux'']"
    using hunkHeader_not_added [of 1 2 1 4] by (simp add: startsWith_def js_def)
  have notok: "\<forall>l \<in> set ?hunk. startsWith l (js ''+'') \<longrightarrow> \<not> occursIn (js ''++ code'') (slice 1 l)"
  proof -
    have "\<forall>l \<in> set (filter (\<lambda>l. startsWith l (js ''+'')) ?hunk). \<not> occursIn (js ''++ code'') (slice 1 l)"
      unfolding plus by (simp add: slice_def startsWith_def js_def)
    then show ?thesis by auto
  qed
  have block: "concat (map (\<lambda>l. nl # slice 1 l) [js ''+baz'', js ''+qux'']) = js ''\<newline>baz\<newline>qux''"
    by (simp add: slice_def js_def nl_def)
  note inst = findDifferences_same_text [of createPatch_prefix ?old ?old ?new "[]" ?hunk]
  from inst [THEN conjunct1, rule_format, OF createPatch_prefix_same]
  have same: "findDifferences createPatch_prefix ?old ?old = []" .
  from inst [THEN conjunct2, THEN conjunct2, rule_format, OF conjI [OF patch conjI [OF nonl notok]]]
  have ordered: "findDifferences createPatch_prefix ?old ?new = [js ''\<newline>baz\<newline>qux'']"
    unfolding plus block by simp
  from inst [THEN conjunct2, THEN conjunct1]
  have "findDifferencesLogged createPatch_prefix ?old ?new []
         = ([js ''\<newline>baz\<newline>qux''],
            [LogText (js ''addedLines1'') (createPatch_prefix (js ''code'') ?old ?new),
             LogList (js ''addedLines'') [js ''\<newline>baz\<newline>qux'']])"
    unfolding ordered by simp
  with same show ?thesis by simp
qed

section \<open>Properties of the range resolver\<close>

subsection \<open>An escaped token is a sequence of pattern characters\<close>

lemma escapedClass_not_alnum: "escapedClass c \<Longrightarrow> \<not> asciiLetterOrDigit c"
  unfolding escapedClass_def whiteSpaceClass_def asciiLetterOrDigit_def backslash_def js_def
  by auto

lemma not_escapedClass_plain:
  assumes "\<not> escapedClass c"
  shows "c \<noteq> backslash" "c \<notin> set (js ''*+?()[]{}|'')"
    "c \<noteq> of_char CHR ''^''" "c \<noteq> of_char CHR ''$''" "c \<noteq> of_char CHR ''.''"
  using assms unfolding escapedClass_def js_def by auto

lemma parsePattern_escapeRegExp: "parsePattern (escapeRegExp t) = Inr (map PatternCharacter t)"
proof (induction t)
  case Nil
  then show ?case by (simp add: escapeRegExp_def)
next
  case (Cons c t)
  then have IH: "parsePattern (escapeRegExp t) = Inr (map PatternCharacter t)" .
  show ?case
  proof (cases "escapedClass c")
    case True
    then have "escapeRegExp (c # t) = backslash # c # escapeRegExp t"
      by (simp add: escapeRegExp_def)
    with IH escapedClass_not_alnum [OF True] show ?thesis by simp
  next
    case False
    then have "escapeRegExp (c # t) = c # escapeRegExp t"
      by (simp add: escapeRegExp_def)
    with IH not_escapedClass_plain [OF False] show ?thesis by simp
  qed
qed

lemma literalAt_Cons:
  "literalAt (c # t) s i = (i < length s \<and> s ! i = c \<and> literalAt t s (Suc i))"
proof (cases "i < length s")
  case False
  then show ?thesis by (simp add: literalAt_def)
next
  case True
  then have "drop i s = s ! i # drop (Suc i) s" by (simp add: Cons_nth_drop_Suc)
  with True show ?thesis by (auto simp: literalAt_def)
qed

lemma literalAt_Nil: "literalAt [] s i = (i \<le> length s)"
  by (simp add: literalAt_def)

lemma matchTerms_literal:
  "i \<le> length s \<Longrightarrow> matchTerms (map PatternCharacter t) s i = (if literalAt t s i then Some (i + length t) else None)"
  by (induction t arbitrary: i) (auto simp: literalAt_Cons literalAt_Nil)

lemma execFrom_literal_None:
  "execFrom (map PatternCharacter t) s k = None \<longleftrightarrow> (\<forall>i. k \<le> i \<longrightarrow> \<not> literalAt t s i)"
proof (induction "map PatternCharacter t" s k rule: execFrom.induct)
  case (1 s k)
  show ?case
  proof (cases "length s < k")
    case True
    then show ?thesis by (subst execFrom.simps) (auto simp: literalAt_def)
  next
    case False
    then have k: "k \<le> length s" by simp
    show ?thesis
    proof (cases "literalAt t s k")
      case True
      with k show ?thesis by (subst execFrom.simps) (auto simp: matchTerms_literal)
    next
      case no: False
      with k False have "execFrom (map PatternCharacter t) s k = execFrom (map PatternCharacter t) s (Suc k)"
        by (subst execFrom.simps) (simp add: matchTerms_literal)
      moreover have "(execFrom (map PatternCharacter t) s (Suc k) = None) = (\<forall>i. Suc k \<le> i \<longrightarrow> \<not> literalAt t s i)"
        using 1 False no k by (simp add: matchTerms_literal)
      moreover have "(\<forall>i. Suc k \<le> i \<longrightarrow> \<not> literalAt t s i) = (\<forall>i. k \<le> i \<longrightarrow> \<not> literalAt t s i)"
        using no by (metis Suc_leI le_neq_implies_less Suc_leD)
      ultimately show ?thesis by simp
    qed
  qed
qed

subsection \<open>The loop over the matches of one typo\<close>

lemma newRegExp_escapeRegExp:
  "newRegExp (escapeRegExp t) = Inr \<lparr>terms = map PatternCharacter t, lastIndex = 0\<rparr>"
  by (simp add: newRegExp_def parsePattern_escapeRegExp)

lemma execFrom_short:
  "t \<noteq> [] \<Longrightarrow> length s < k + length t \<Longrightarrow> execFrom (map PatternCharacter t) s k = None"
  by (simp add: execFrom_literal_None literalAt_def)

lemma execFrom_here:
  "literalAt t s k \<Longrightarrow> execFrom (map PatternCharacter t) s k = Some (k, k + length t)"
  by (subst execFrom.simps) (auto simp: matchTerms_literal literalAt_def)

lemma execFrom_skip:
  "\<not> literalAt t s k \<Longrightarrow> k \<le> length s \<Longrightarrow>
   execFrom (map PatternCharacter t) s k = execFrom (map PatternCharacter t) s (Suc k)"
  by (subst execFrom.simps) (simp add: matchTerms_literal)

lemma exec_lastIndex_irrelevant:
  "execFrom ts s j = execFrom ts s k \<Longrightarrow>
   exec \<lparr>terms = ts, lastIndex = j\<rparr> s = exec \<lparr>terms = ts, lastIndex = k\<rparr> s"
  by (simp add: exec_def split: option.splits)

lemma matchLoop_literal:
  assumes "t \<noteq> []"
  shows "matchLoop doc typo \<lparr>terms = map PatternCharacter t, lastIndex = k\<rparr> s ds
         = (if info typo = [] \<and> spec_occurrencesFrom t s k \<noteq> [] then Some (Inl TypeError)
            else Some (Inr (ds @ map (\<lambda>i. CodespellDiagnostic
                                             (Range (positionAt doc i) (positionAt doc (i + length t)))
                                             typo \<lparr>index = i, match0 = t\<rparr>)
                                  (spec_occurrencesFrom t s k))))"
  using assms
proof (induction t s k arbitrary: ds rule: spec_occurrencesFrom.induct)
  case (1 t s k)
  let ?r = "\<lambda>k. \<lparr>terms = map PatternCharacter t, lastIndex = k\<rparr>"
  show ?case
  proof (cases "length s < k + length t")
    case True
    with "1.prems" have "execFrom (map PatternCharacter t) s k = None" by (rule_tac execFrom_short)
    then have "exec (?r k) s = (None, ?r 0)" by (simp add: exec_def)
    moreover from True have "spec_occurrencesFrom t s k = []"
      by (subst spec_occurrencesFrom.simps) simp
    ultimately show ?thesis by (subst matchLoop.simps) simp
  next
    case False
    show ?thesis
    proof (cases "literalAt t s k")
      case True
      then have found: "exec (?r k) s = (Some \<lparr>index = k, match0 = t\<rparr>, ?r (k + length t))"
        by (simp add: exec_def execFrom_here) (simp add: literalAt_def)
      from True False "1.prems" have occ: "spec_occurrencesFrom t s k = k # spec_occurrencesFrom t s (k + length t)"
        by (subst spec_occurrencesFrom.simps) simp
      show ?thesis
      proof (cases "info typo = []")
        case True
        with found occ show ?thesis
          by (subst matchLoop.simps) (simp add: newCodespellDiagnostic_def)
      next
        case info: False
        note "1.IH"(1) [OF _ True "1.prems"]
        with found occ info False "1.prems" show ?thesis
          by (subst matchLoop.simps) (simp add: newCodespellDiagnostic_def)
      qed
    next
      case no: False
      from False have k: "k \<le> length s" by simp
      have "exec (?r k) s = exec (?r (Suc k)) s"
        by (rule exec_lastIndex_irrelevant) (rule execFrom_skip [OF no k])
      then have "matchLoop doc typo (?r k) s ds = matchLoop doc typo (?r (Suc k)) s ds"
        by (subst matchLoop.simps, subst (2) matchLoop.simps) simp
      moreover from no False "1.prems" have "spec_occurrencesFrom t s k = spec_occurrencesFrom t s (Suc k)"
        by (subst spec_occurrencesFrom.simps) simp
      moreover note "1.IH"(2) [OF _ no "1.prems"]
      ultimately show ?thesis using False "1.prems" by simp
    qed
  qed
qed

lemma execFrom_empty: "k \<le> length s \<Longrightarrow> execFrom [] s k = Some (k, k)"
  by (subst execFrom.simps) simp

lemma matchLoop_empty_pattern:
  assumes "matchLoop doc typo regex s ds = Some r"
  shows "\<not> (terms regex = [] \<and> lastIndex regex \<le> length s \<and> info typo \<noteq> [])"
proof (rule matchLoop.raw_induct
    [where P = "\<lambda>doc typo regex s ds r. \<not> (terms regex = [] \<and> lastIndex regex \<le> length s \<and> info typo \<noteq> [])",
     OF _ assms],
    goal_cases)
  case (1 loop doc typo regex s ds r)
  show ?case
  proof
    assume a: "terms regex = [] \<and> lastIndex regex \<le> length s \<and> info typo \<noteq> []"
    then have "exec regex s = (Some \<lparr>index = lastIndex regex, match0 = []\<rparr>, regex)"
      by (simp add: exec_def execFrom_empty)
    with 1(2) a obtain ds' where "loop doc typo regex s ds' = Some r"
      by (auto simp: Let_def newCodespellDiagnostic_def)
    from 1(1) [OF this] a show False by simp
  qed
qed

lemma matchLoop_empty_token:
  assumes "info typo \<noteq> []"
  shows "matchLoop doc typo \<lparr>terms = map PatternCharacter [], lastIndex = 0\<rparr> s ds = None"
proof (cases "matchLoop doc typo \<lparr>terms = map PatternCharacter [], lastIndex = 0\<rparr> s ds")
  case None
  then show ?thesis .
next
  case (Some r)
  from matchLoop_empty_pattern [OF this] assms show ?thesis by simp
qed

lemma matchLoop_empty_token_throws:
  assumes "info typo = []"
  shows "matchLoop doc typo \<lparr>terms = map PatternCharacter [], lastIndex = 0\<rparr> s ds = Some (Inl TypeError)"
  using assms
  by (subst matchLoop.simps) (simp add: exec_def execFrom_empty newCodespellDiagnostic_def)

lemma matchLoop_constructed:
  assumes "matchLoop doc typo regex s ds = Some res"
  shows "\<forall>r. res = Inr r \<longrightarrow>
           (\<forall>d \<in> set r. d \<in> set ds \<or> (\<exists>rng matched. d = CodespellDiagnostic rng typo matched))"
proof (rule matchLoop.raw_induct
    [where P = "\<lambda>doc typo regex s ds res. \<forall>r. res = Inr r \<longrightarrow>
           (\<forall>d \<in> set r. d \<in> set ds \<or> (\<exists>rng matched. d = CodespellDiagnostic rng typo matched))",
     OF _ assms],
    goal_cases)
  case (1 loop doc typo regex s ds res)
  obtain m regex' where ex: "exec regex s = (m, regex')" by (cases "exec regex s")
  show ?case
  proof (cases m)
    case None
    with ex 1(2) show ?thesis by auto
  next
    case (Some match)
    let ?rng = "Range (positionAt doc (index match)) (positionAt doc (index match + length (match0 match)))"
    show ?thesis
    proof (cases "info typo = []")
      case True
      with ex Some 1(2) show ?thesis by (auto simp: Let_def newCodespellDiagnostic_def)
    next
      case False
      with ex Some 1(2) have "loop doc typo regex' s (ds @ [CodespellDiagnostic ?rng typo match]) = Some res"
        by (simp add: Let_def newCodespellDiagnostic_def)
      from 1(1) [OF this] show ?thesis by auto
    qed
  qed
qed

subsection \<open>All typos of a document\<close>

lemma forEachTypo_nonempty:
  assumes "\<forall>typo \<in> set typos. token typo \<noteq> [] \<and> (spec_occurrences (token typo) s \<noteq> [] \<longrightarrow> info typo \<noteq> [])"
  shows "forEachTypo doc s typos ds
         = Some (Inr (ds @ concat (map (\<lambda>typo.
               map (\<lambda>i. CodespellDiagnostic
                            (Range (positionAt doc i) (positionAt doc (i + length (token typo))))
                            typo \<lparr>index = i, match0 = token typo\<rparr>)
                   (spec_occurrences (token typo) s)) typos)))"
  using assms
proof (induction typos arbitrary: ds)
  case Nil
  then show ?case by simp
next
  case (Cons typo typos)
  then have "token typo \<noteq> []" "spec_occurrences (token typo) s \<noteq> [] \<longrightarrow> info typo \<noteq> []" by simp_all
  with matchLoop_literal [of "token typo" doc typo 0 s ds] Cons show ?case
    by (auto simp: newRegExp_escapeRegExp spec_occurrences_def)
qed

lemma forEachTypo_throws:
  assumes "\<forall>typo \<in> set pre. token typo \<noteq> [] \<and> (spec_occurrences (token typo) s \<noteq> [] \<longrightarrow> info typo \<noteq> [])"
    and "token typo \<noteq> []" "spec_occurrences (token typo) s \<noteq> []" "info typo = []"
  shows "forEachTypo doc s (pre @ typo # post) ds = Some (Inl TypeError)"
  using assms(1)
proof (induction pre arbitrary: ds)
  case Nil
  from matchLoop_literal [of "token typo" doc typo 0 s ds] assms(2-4) show ?case
    by (simp add: newRegExp_escapeRegExp spec_occurrences_def)
next
  case (Cons p pre)
  then have "token p \<noteq> []" "spec_occurrences (token p) s \<noteq> [] \<longrightarrow> info p \<noteq> []" by simp_all
  with matchLoop_literal [of "token p" doc p 0 s ds] Cons show ?case
    by (auto simp: newRegExp_escapeRegExp spec_occurrences_def)
qed

lemma forEachTypo_returns:
  assumes "\<forall>typo \<in> set typos. token typo \<noteq> []"
  shows "\<exists>r. forEachTypo doc s typos ds = Some r"
  using assms
proof (induction typos arbitrary: ds)
  case Nil
  then show ?case by simp
next
  case (Cons typo typos)
  then have t: "token typo \<noteq> []" by simp
  from Cons have rest: "\<And>ds. \<exists>r. forEachTypo doc s typos ds = Some r" by simp
  show ?case
  proof (cases "info typo = [] \<and> spec_occurrencesFrom (token typo) s 0 \<noteq> []")
    case True
    with matchLoop_literal [OF t, of doc typo 0 s ds] show ?thesis
      by (simp add: newRegExp_escapeRegExp)
  next
    case False
    with matchLoop_literal [OF t, of doc typo 0 s ds] rest show ?thesis
      by (simp add: newRegExp_escapeRegExp)
  qed
qed

lemma forEachTypo_empty_token:
  assumes "\<exists>typo \<in> set typos. token typo = []" "\<forall>typo \<in> set typos. info typo \<noteq> []"
  shows "forEachTypo doc s typos ds = None"
  using assms
proof (induction typos arbitrary: ds)
  case Nil
  then show ?case by simp
next
  case (Cons typo typos)
  from Cons.prems have info: "info typo \<noteq> []" by simp
  show ?case
  proof (cases "token typo = []")
    case True
    with matchLoop_empty_token [OF info, of doc s ds] show ?thesis
      by (simp add: newRegExp_escapeRegExp)
  next
    case False
    with Cons.prems have rest: "\<exists>typo \<in> set typos. token typo = []" "\<forall>typo \<in> set typos. info typo \<noteq> []"
      by simp_all
    from matchLoop_literal [OF False, of doc typo 0 s ds] info Cons.IH [OF rest] show ?thesis
      by (simp add: newRegExp_escapeRegExp)
  qed
qed

lemma forEachTypo_constructed:
  assumes "forEachTypo doc s typos ds = Some (Inr r)"
  shows "\<forall>d \<in> set r. d \<in> set ds \<or> (\<exists>rng typo matched. typo \<in> set typos \<and> d = CodespellDiagnostic rng typo matched)"
  using assms
proof (induction typos arbitrary: ds)
  case Nil
  then show ?case by simp
next
  case (Cons typo typos)
  from Cons.prems obtain regex ds' where
    regex: "newRegExp (escapeRegExp (token typo)) = Inr regex"
    and loop: "matchLoop doc typo regex s ds = Some (Inr ds')"
    and rest: "forEachTypo doc s typos ds' = Some (Inr r)"
    by (auto split: sum.splits option.splits)
  from matchLoop_constructed [OF loop]
  have one: "\<forall>d \<in> set ds'. d \<in> set ds \<or> (\<exists>rng matched. d = CodespellDiagnostic rng typo matched)"
    by simp
  from Cons.IH [OF rest]
  have more: "\<forall>d \<in> set r. d \<in> set ds' \<or> (\<exists>rng typo matched. typo \<in> set typos \<and> d = CodespellDiagnostic rng typo matched)" .
  show ?case
  proof (rule ballI)
    fix d assume "d \<in> set r"
    with more consider "d \<in> set ds'"
      | "\<exists>rng typo matched. typo \<in> set typos \<and> d = CodespellDiagnostic rng typo matched" by blast
    then show "d \<in> set ds \<or> (\<exists>rng typo' matched. typo' \<in> set (typo # typos) \<and> d = CodespellDiagnostic rng typo' matched)"
    proof cases
      case 1
      with one show ?thesis by (metis list.set_intros(1))
    next
      case 2
      then show ?thesis by (metis list.set_intros(2))
    qed
  qed
qed

lemma refreshDiagnostics_frame:
  assumes "refreshDiagnostics doc s = Some (Inr s')"
  shows "documentsToTypos s' = documentsToTypos s" "lastSavedContent s' = lastSavedContent s"
    "\<And>u. u \<noteq> uri doc \<Longrightarrow> codespellDiagnostics s' u = codespellDiagnostics s u"
  using assms
  by (auto simp: refreshDiagnostics_def DocumentsToTypos_getTypos_def Let_def split: option.splits sum.splits)

lemma refreshDiagnostics_nonempty:
  assumes "documentsToTypos s (uri doc) = Some typos"
    and "\<forall>typo \<in> set typos. token typo \<noteq> []
           \<and> (spec_occurrences (token typo) (getText doc) \<noteq> [] \<longrightarrow> info typo \<noteq> [])"
  shows "refreshDiagnostics doc s
         = Some (Inr (s\<lparr>codespellDiagnostics := (codespellDiagnostics s)(uri doc \<mapsto>
             concat (map (\<lambda>typo.
               map (\<lambda>i. CodespellDiagnostic
                            (Range (positionAt doc i) (positionAt doc (i + length (token typo))))
                            typo \<lparr>index = i, match0 = token typo\<rparr>)
                   (spec_occurrences (token typo) (getText doc))) typos))\<rparr>))"
  using assms by (simp add: refreshDiagnostics_def DocumentsToTypos_getTypos_def forEachTypo_nonempty)

lemma refreshDiagnostics_empty_token:
  assumes "documentsToTypos s (uri doc) = Some typos" "\<exists>typo \<in> set typos. token typo = []"
    "\<forall>typo \<in> set typos. info typo \<noteq> []"
  shows "refreshDiagnostics doc s = None"
  using assms by (simp add: refreshDiagnostics_def DocumentsToTypos_getTypos_def forEachTypo_empty_token)

lemma refreshDiagnostics_throws:
  assumes "documentsToTypos s (uri doc) = Some (pre @ typo # post)"
    and "\<forall>typo \<in> set pre. token typo \<noteq> []
           \<and> (spec_occurrences (token typo) (getText doc) \<noteq> [] \<longrightarrow> info typo \<noteq> [])"
    and "token typo \<noteq> []" "spec_occurrences (token typo) (getText doc) \<noteq> []" "info typo = []"
  shows "refreshDiagnostics doc s = Some (Inl TypeError)"
  using assms(1) forEachTypo_throws [OF assms(2-5)]
  by (simp add: refreshDiagnostics_def DocumentsToTypos_getTypos_def)

lemma refreshDiagnostics_returns:
  assumes "documentsToTypos s (uri doc) = Some typos" "\<forall>typo \<in> set typos. token typo \<noteq> []"
  shows "\<exists>r. refreshDiagnostics doc s = Some r"
proof -
  from forEachTypo_returns [OF assms(2)] obtain r where r: "forEachTypo doc (getText doc) typos [] = Some r"
    by blast
  with assms(1) show ?thesis
    by (cases r) (simp_all add: refreshDiagnostics_def DocumentsToTypos_getTypos_def)
qed

lemma refreshDiagnostics_constructed:
  assumes "documentsToTypos s (uri doc) = Some typos" "refreshDiagnostics doc s = Some (Inr s')"
  shows "\<exists>diagnostics. codespellDiagnostics s' (uri doc) = Some diagnostics
           \<and> (\<forall>d \<in> set diagnostics. \<exists>rng typo matched.
                 typo \<in> set typos \<and> d = CodespellDiagnostic rng typo matched)"
proof -
  from assms obtain ds where ds: "forEachTypo doc (getText doc) typos [] = Some (Inr ds)"
    and s': "s' = s\<lparr>codespellDiagnostics := (codespellDiagnostics s)(uri doc \<mapsto> ds)\<rparr>"
    by (auto simp: refreshDiagnostics_def DocumentsToTypos_getTypos_def split: option.splits sum.splits)
  from forEachTypo_constructed [OF ds] s' show ?thesis by simp
qed

lemma refreshDiagnostics_absent:
  "documentsToTypos s (uri doc) = None \<Longrightarrow> refreshDiagnostics doc s = Some (Inr s)"
  by (simp add: refreshDiagnostics_def DocumentsToTypos_getTypos_def)

subsection \<open>The occurrences of a token\<close>

lemma spec_occurrencesFrom_props:
  assumes "t \<noteq> []"
  shows "sorted_wrt (\<lambda>i j. i + length t \<le> j) (spec_occurrencesFrom t s k)
         \<and> (\<forall>i \<in> set (spec_occurrencesFrom t s k). k \<le> i \<and> literalAt t s i)"
  using assms
proof (induction t s k rule: spec_occurrencesFrom.induct)
  case (1 t s k)
  show ?case
  proof (cases "length s < k + length t")
    case True
    then show ?thesis by (subst (1 2) spec_occurrencesFrom.simps) simp
  next
    case False
    show ?thesis
    proof (cases "literalAt t s k")
      case True
      with False "1.prems" have eq: "spec_occurrencesFrom t s k = k # spec_occurrencesFrom t s (k + length t)"
        by (subst spec_occurrencesFrom.simps) simp
      from "1.IH"(1) [OF _ True "1.prems"] False "1.prems" True show ?thesis
        unfolding eq by auto
    next
      case no: False
      with False "1.prems" have eq: "spec_occurrencesFrom t s k = spec_occurrencesFrom t s (Suc k)"
        by (subst spec_occurrencesFrom.simps) simp
      from "1.IH"(2) [OF _ no "1.prems"] False "1.prems" show ?thesis
        unfolding eq by auto
    qed
  qed
qed

lemma Range_eq:
  "Range a b = Range c d \<Longrightarrow> (a = c \<and> b = d) \<or> (a = d \<and> b = c)"
  by (auto simp: Range_def split: if_splits)

lemma sorted_wrt_neq_distinct: "sorted_wrt (\<noteq>) xs \<Longrightarrow> distinct xs"
  by (induction xs) auto
lemma spec_occurrencesFrom_complete:
  assumes "t \<noteq> []" "k \<le> j" "literalAt t s j"
  shows "\<exists>i \<in> set (spec_occurrencesFrom t s k). i \<le> j \<and> j < i + length t"
  using assms
proof (induction t s k rule: spec_occurrencesFrom.induct)
  case (1 t s k)
  from "1.prems" have fits: "\<not> length s < k + length t" by (auto simp: literalAt_def)
  show ?case
  proof (cases "literalAt t s k")
    case True
    with fits "1.prems" have eq: "spec_occurrencesFrom t s k = k # spec_occurrencesFrom t s (k + length t)"
      by (subst spec_occurrencesFrom.simps) simp
    show ?thesis
    proof (cases "j < k + length t")
      case True
      with "1.prems" show ?thesis unfolding eq by auto
    next
      case False
      then have "k + length t \<le> j" by simp
      from "1.IH"(1) [OF _ True "1.prems"(1) this "1.prems"(3)] fits "1.prems"(1)
      show ?thesis unfolding eq by auto
    qed
  next
    case no: False
    with fits "1.prems" have eq: "spec_occurrencesFrom t s k = spec_occurrencesFrom t s (Suc k)"
      by (subst spec_occurrencesFrom.simps) simp
    from no "1.prems" have "Suc k \<le> j" by (cases "j = k") auto
    from "1.IH"(2) [OF _ no "1.prems"(1) this "1.prems"(3)] fits "1.prems"(1)
    show ?thesis unfolding eq by auto
  qed
qed

lemma spec_occurrences_facts:
  assumes t: "t \<noteq> []"
  shows "sorted_wrt (\<lambda>i j. i + length t \<le> j) (spec_occurrences t s)"
    and "\<forall>i \<in> set (spec_occurrences t s). literalAt t s i"
    and "\<forall>j. literalAt t s j \<longrightarrow> (\<exists>i \<in> set (spec_occurrences t s). i \<le> j \<and> j < i + length t)"
  using spec_occurrencesFrom_props [OF t, of s 0] spec_occurrencesFrom_complete [OF t, of 0 _ s]
  by (simp_all add: spec_occurrences_def)

lemma teh_occurrences: "spec_occurrences (js ''teh'') (js ''teh cat\<newline>teh'') = [0, 8]"
  by (simp add: spec_occurrences_def spec_occurrencesFrom.simps literalAt_def js_def)

lemma spec_occurrences_empty:
  assumes "t \<noteq> []"
  shows "spec_occurrences t s = [] \<longleftrightarrow> (\<forall>j. \<not> literalAt t s j)"
  using spec_occurrences_facts(2,3) [OF assms, of s]
  by (cases "spec_occurrences t s") auto

lemma spec_occurrencesFrom_all:
  assumes "t \<noteq> []"
    and "\<forall>i j. literalAt t s i \<and> literalAt t s j \<and> i < j \<longrightarrow> i + length t \<le> j"
  shows "spec_occurrencesFrom t s k = filter (literalAt t s) [k..<Suc (length s)]"
  using assms
proof (induction t s k rule: spec_occurrencesFrom.induct)
  case (1 t s k)
  show ?case
  proof (cases "length s < k + length t")
    case True
    then have "\<forall>i \<in> set [k..<Suc (length s)]. \<not> literalAt t s i"
      by (auto simp: literalAt_def)
    then have "filter (literalAt t s) [k..<Suc (length s)] = []"
      by (simp only: filter_False)
    with True show ?thesis by (subst spec_occurrencesFrom.simps) simp
  next
    case False
    with "1.prems"(1) have k: "k < Suc (length s)" by simp
    then have upt: "[k..<Suc (length s)] = k # [Suc k..<Suc (length s)]"
      by (rule upt_conv_Cons)
    show ?thesis
    proof (cases "literalAt t s k")
      case True
      with False "1.prems" have eq: "spec_occurrencesFrom t s k = k # spec_occurrencesFrom t s (k + length t)"
        by (subst spec_occurrencesFrom.simps) simp
      from "1.prems"(1) obtain n where n: "length t = Suc n" by (cases t) auto
      from False n obtain m where m: "Suc (length s) = Suc k + n + m"
        by (metis add_Suc le_Suc_ex le_SucI not_less add_Suc_right)
      have "[Suc k..<Suc k + n + m] = [Suc k..<Suc k + n] @ [Suc k + n..<Suc k + n + m]"
        by (rule upt_add_eq_append) simp
      then have "[Suc k..<Suc (length s)] = [Suc k..<Suc k + n] @ [Suc k + n..<Suc (length s)]"
        unfolding m .
      moreover have "\<forall>i \<in> set [Suc k..<Suc k + n]. \<not> literalAt t s i"
      proof
        fix i assume "i \<in> set [Suc k..<Suc k + n]"
        then have i: "k < i" "i < k + length t" using n by auto
        show "\<not> literalAt t s i"
        proof
          assume "literalAt t s i"
          with True i(1) "1.prems"(2) have "k + length t \<le> i" by blast
          with i(2) show False by simp
        qed
      qed
      then have "filter (literalAt t s) [Suc k..<Suc k + n] = []"
        by (simp only: filter_False)
      ultimately have "filter (literalAt t s) [Suc k..<Suc (length s)]
                       = filter (literalAt t s) [k + length t..<Suc (length s)]"
        using n by simp
      with "1.IH"(1) [OF _ True "1.prems"] False "1.prems"(1) True show ?thesis
        unfolding eq upt by simp
    next
      case no: False
      with False "1.prems" have eq: "spec_occurrencesFrom t s k = spec_occurrencesFrom t s (Suc k)"
        by (subst spec_occurrencesFrom.simps) simp
      from "1.IH"(2) [OF _ no "1.prems"] False "1.prems"(1) no show ?thesis
        unfolding eq upt by simp
    qed
  qed
qed

subsection \<open>Positions and ranges\<close>

lemma posScan_lower:
  "l < line (posScan s k l c) \<or> (line (posScan s k l c) = l \<and> c \<le> character (posScan s k l c))"
proof (induction s k l c rule: posScan.induct)
  case (1 s l c)
  then show ?case by simp
next
  case (2 k l c)
  then show ?case by simp
next
  case (3 x k l c)
  then show ?case by (cases k) auto
next
  case (4 x y ys k l c)
  show ?case
  proof (cases "x = cr \<and> y = nl")
    case True
    show ?thesis
    proof (cases k)
      case 0
      with True show ?thesis by simp
    next
      case (Suc k')
      with True "4.IH"(1) [OF True Suc] show ?thesis by auto
    qed
  next
    case False
    show ?thesis
    proof (cases "x = cr \<or> x = nl")
      case True
      with False "4.IH"(2) [OF False True] show ?thesis by auto
    next
      case no: False
      with False "4.IH"(3) [OF False no] show ?thesis by auto
    qed
  qed
qed

lemma posScan_first:
  assumes "0 < b" "b \<le> length s"
  shows "isBefore \<lparr>line = l, character = c\<rparr> (posScan s b l c)
         \<or> (b = 1 \<and> s ! 0 = cr \<and> 1 < length s \<and> s ! 1 = nl
            \<and> posScan s b l c = \<lparr>line = l, character = c\<rparr>)"
proof -
  from assms obtain k where b: "b = Suc k" by (cases b) auto
  from assms obtain x xs where s: "s = x # xs" by (cases s) auto
  show ?thesis
  proof (cases xs)
    case Nil
    with assms b s show ?thesis by (auto simp: isBefore_def)
  next
    case (Cons y ys)
    show ?thesis
    proof (cases "x = cr \<and> y = nl")
      case True
      show ?thesis
      proof (cases k)
        case 0
        with True b s Cons show ?thesis by simp
      next
        case (Suc k')
        with True b s Cons posScan_lower [of "Suc l" ys k' 0] show ?thesis
          by (auto simp: isBefore_def)
      qed
    next
      case False
      show ?thesis
      proof (cases "x = cr \<or> x = nl")
        case True
        with False b s Cons posScan_lower [of "Suc l" "y # ys" k 0] show ?thesis
          by (auto simp: isBefore_def)
      next
        case no: False
        with False b s Cons posScan_lower [of l "y # ys" k "Suc c"] show ?thesis
          by (auto simp: isBefore_def)
      qed
    qed
  qed
qed

lemma posScan_apart:
  assumes "a < b" "b \<le> length s"
  shows "isBefore (posScan s a l c) (posScan s b l c)
         \<or> (b = Suc a \<and> s ! a = cr \<and> s ! b = nl \<and> posScan s a l c = posScan s b l c)"
  using assms
proof (induction s a l c arbitrary: b rule: posScan.induct)
  case (1 s l c)
  from posScan_first [of b s l c] "1.prems" show ?case by auto
next
  case (2 k l c)
  then show ?case by simp
next
  case (3 x k l c)
  then show ?case by simp
next
  case (4 x y ys k l c)
  from "4.prems" obtain k2 where b: "b = Suc k2" and k2: "k < k2" "k2 \<le> length (y # ys)"
    by (cases b) auto
  show ?case
  proof (cases "x = cr \<and> y = nl")
    case True
    from k2 obtain k2' where k2': "k2 = Suc k2'" by (cases k2) auto
    show ?thesis
    proof (cases k)
      case 0
      with True b k2' posScan_lower [of "Suc l" ys k2' 0] show ?thesis
        by (auto simp: isBefore_def)
    next
      case (Suc k')
      with k2 k2' have "k' < k2'" "k2' \<le> length ys" by simp_all
      from "4.IH"(1) [OF True Suc this] True b k2' Suc show ?thesis by auto
    qed
  next
    case False
    show ?thesis
    proof (cases "x = cr \<or> x = nl")
      case True
      from "4.IH"(2) [OF False True k2] False True b show ?thesis by auto
    next
      case no: False
      from "4.IH"(3) [OF False no k2] False no b show ?thesis by auto
    qed
  qed
qed

lemma positionAt_apart:
  assumes "a < b" "b \<le> length (getText doc)" "positionAt doc a = positionAt doc b"
  shows "b = Suc a \<and> getText doc ! a = cr \<and> getText doc ! b = nl"
  using posScan_apart [OF assms(1,2), of 0 0] assms(3)
  by (auto simp: positionAt_def isBefore_def)

lemma Range_positionAt:
  assumes "i \<le> j" "j \<le> length (getText doc)"
  shows "Range (positionAt doc i) (positionAt doc j)
         = \<lparr>rangeStart = positionAt doc i, rangeEnd = positionAt doc j\<rparr>"
proof (cases "i = j")
  case True
  then show ?thesis by (simp add: Range_def)
next
  case False
  with assms have "i < j" by simp
  from posScan_apart [OF this assms(2), of 0 0] show ?thesis
    by (auto simp: positionAt_def Range_def)
qed

lemma literalAt_first: "t \<noteq> [] \<Longrightarrow> literalAt t s i \<Longrightarrow> s ! i = hd t"
  by (cases t) (simp_all add: literalAt_Cons)

lemma cr_neq_nl: "cr \<noteq> nl"
  by (simp add: cr_def nl_def)

lemma ranges_apart:
  assumes t: "t \<noteq> []"
    and i: "literalAt t (getText doc) i" and j: "literalAt t (getText doc) j"
    and less: "i < j"
  shows "Range (positionAt doc i) (positionAt doc (i + length t))
         \<noteq> Range (positionAt doc j) (positionAt doc (j + length t))"
proof
  assume eq: "Range (positionAt doc i) (positionAt doc (i + length t))
              = Range (positionAt doc j) (positionAt doc (j + length t))"
  from i j have b: "i + length t \<le> length (getText doc)" "j + length t \<le> length (getText doc)"
    by (simp_all add: literalAt_def)
  from t have n: "0 < length t" by simp
  from Range_eq [OF eq] show False
  proof
    assume "positionAt doc i = positionAt doc j \<and> positionAt doc (i + length t) = positionAt doc (j + length t)"
    then have "positionAt doc i = positionAt doc j" ..
    moreover from b(2) have "j \<le> length (getText doc)" by simp
    ultimately have "getText doc ! i = cr \<and> getText doc ! j = nl"
      using positionAt_apart [OF less] by blast
    with literalAt_first [OF t i] literalAt_first [OF t j] cr_neq_nl show False by simp
  next
    assume "positionAt doc i = positionAt doc (j + length t) \<and> positionAt doc (i + length t) = positionAt doc j"
    then have same: "positionAt doc i = positionAt doc (j + length t)" ..
    from less have "i < j + length t" by simp
    from positionAt_apart [OF this b(2) same] less n show False by simp
  qed
qed

lemma distinct_ranges:
  assumes t: "t \<noteq> []"
  shows "distinct (map (\<lambda>i. Range (positionAt doc i) (positionAt doc (i + length t)))
                       (spec_occurrences t (getText doc)))"
proof -
  let ?occ = "spec_occurrences t (getText doc)"
  from spec_occurrences_facts(1,2) [OF t, of "getText doc"]
  have sorted: "sorted_wrt (\<lambda>i j. i + length t \<le> j) ?occ"
    and lit: "\<forall>i \<in> set ?occ. literalAt t (getText doc) i"
    by simp_all
  from t have "\<And>i j. i + length t \<le> j \<Longrightarrow> i \<noteq> j" by auto
  with sorted have "sorted_wrt (\<noteq>) ?occ"
    by (rule_tac sorted_wrt_mono_rel [of _ "\<lambda>i j. i + length t \<le> j"]) auto
  then have "distinct ?occ" by (rule sorted_wrt_neq_distinct)
  moreover have "inj_on (\<lambda>i. Range (positionAt doc i) (positionAt doc (i + length t))) (set ?occ)"
  proof (rule inj_onI)
    fix i j
    assume i: "i \<in> set ?occ" and j: "j \<in> set ?occ"
      and eq: "Range (positionAt doc i) (positionAt doc (i + length t))
               = Range (positionAt doc j) (positionAt doc (j + length t))"
    from i j lit have l: "literalAt t (getText doc) i" "literalAt t (getText doc) j" by simp_all
    show "i = j"
    proof (rule ccontr)
      assume "i \<noteq> j"
      then consider "i < j" | "j < i" by linarith
      then show False
      proof cases
        case 1
        from ranges_apart [OF t l(1) l(2) 1] eq show False by simp
      next
        case 2
        from ranges_apart [OF t l(2) l(1) 2] eq show False by simp
      qed
    qed
  qed
  ultimately show ?thesis by (simp add: distinct_map)
qed

lemma occurrence_ranges:
  assumes t: "t \<noteq> []"
  shows "map (\<lambda>i. f (Range (positionAt doc i) (positionAt doc (i + length t))) i)
             (spec_occurrences t (getText doc))
         = map (\<lambda>i. f \<lparr>rangeStart = positionAt doc i, rangeEnd = positionAt doc (i + length t)\<rparr> i)
             (spec_occurrences t (getText doc))"
proof (rule map_cong [OF refl])
  fix i assume i: "i \<in> set (spec_occurrences t (getText doc))"
  from spec_occurrences_facts(2) [OF t, of "getText doc"] i
  have "i + length t \<le> length (getText doc)" by (simp add: literalAt_def)
  from Range_positionAt [OF _ this, of i]
  show "f (Range (positionAt doc i) (positionAt doc (i + length t))) i
        = f \<lparr>rangeStart = positionAt doc i, rangeEnd = positionAt doc (i + length t)\<rparr> i"
    by simp
qed

lemma diagnostics_ranges:
  assumes "\<forall>typo \<in> set typos. token typo \<noteq> []"
  shows "concat (map (\<lambda>typo.
                   map (\<lambda>i. CodespellDiagnostic
                                (Range (positionAt doc i) (positionAt doc (i + length (token typo))))
                                typo \<lparr>index = i, match0 = token typo\<rparr>)
                       (spec_occurrences (token typo) (getText doc))) typos)
         = concat (map (\<lambda>typo.
                   map (\<lambda>i. CodespellDiagnostic
                                \<lparr>rangeStart = positionAt doc i,
                                 rangeEnd = positionAt doc (i + length (token typo))\<rparr>
                                typo \<lparr>index = i, match0 = token typo\<rparr>)
                       (spec_occurrences (token typo) (getText doc))) typos)"
  using assms
proof (induction typos)
  case Nil
  then show ?case by simp
next
  case (Cons typo typos)
  then have t: "token typo \<noteq> []" by simp
  from occurrence_ranges [OF t, of "\<lambda>r i. CodespellDiagnostic r typo \<lparr>index = i, match0 = token typo\<rparr>" doc]
    Cons show ?case by simp
qed

section \<open>The claims about the range resolver\<close>

lemma typos_fit:
  assumes "\<forall>typo \<in> set typos. token typo \<noteq> []
             \<and> ((\<exists>i. literalAt (token typo) docText i) \<longrightarrow> info typo \<noteq> [])"
  shows "\<forall>typo \<in> set typos. token typo \<noteq> []
             \<and> (spec_occurrences (token typo) docText \<noteq> [] \<longrightarrow> info typo \<noteq> [])"
proof
  fix typo assume "typo \<in> set typos"
  with assms have t: "token typo \<noteq> []"
    and i: "(\<exists>i. literalAt (token typo) docText i) \<longrightarrow> info typo \<noteq> []" by simp_all
  from spec_occurrences_empty [OF t, of docText] i
  show "token typo \<noteq> [] \<and> (spec_occurrences (token typo) docText \<noteq> [] \<longrightarrow> info typo \<noteq> [])"
    using t by blast
qed

subsection \<open>Literal matching\<close>

text \<open>
  C2 (as amended). For every document and every typo list in which every token is
  non-empty and every typo whose token stands in the text has a non-empty \<open>info\<close>,
  \<open>refreshDiagnostics\<close> returns, and the diagnostics it stores are those of the matches at
  the offsets that the left-to-right, non-overlapping scan for the token records, typo
  after typo. Whatever code units a token has (pattern-special characters, white space,
  newlines), its regular expression is the sequence of its code units as pattern
  characters; every match is a place where the token stands verbatim in the text; every
  place where the token stands verbatim is matched or overlaps a match of the token; and
  when the places where the token stands do not overlap one another, the matches are
  exactly these places, in increasing order.
\<close>

theorem refreshDiagnostics_matches_literal:
  assumes "documentsToTypos s (uri doc) = Some typos"
    and "\<forall>typo \<in> set typos. token typo \<noteq> []
           \<and> ((\<exists>i. literalAt (token typo) (getText doc) i) \<longrightarrow> info typo \<noteq> [])"
  shows "(\<exists>s'. refreshDiagnostics doc s = Some (Inr s')
           \<and> codespellDiagnostics s' (uri doc)
             = Some (concat (map (\<lambda>typo.
                   map (\<lambda>i. CodespellDiagnostic
                                (Range (positionAt doc i) (positionAt doc (i + length (token typo))))
                                typo \<lparr>index = i, match0 = token typo\<rparr>)
                       (spec_occurrences (token typo) (getText doc))) typos)))
         \<and> (\<forall>typo \<in> set typos.
           newRegExp (escapeRegExp (token typo))
             = Inr \<lparr>terms = map PatternCharacter (token typo), lastIndex = 0\<rparr>
           \<and> (\<forall>i \<in> set (spec_occurrences (token typo) (getText doc)). literalAt (token typo) (getText doc) i)
           \<and> (\<forall>j. literalAt (token typo) (getText doc) j \<longrightarrow>
                 (\<exists>i \<in> set (spec_occurrences (token typo) (getText doc)). i \<le> j \<and> j < i + length (token typo)))
           \<and> ((\<forall>i j. literalAt (token typo) (getText doc) i \<and> literalAt (token typo) (getText doc) j \<and> i < j
                        \<longrightarrow> i + length (token typo) \<le> j)
                \<longrightarrow> spec_occurrences (token typo) (getText doc)
                    = filter (literalAt (token typo) (getText doc)) [0..<Suc (length (getText doc))]))"
proof (rule conjI)
  from refreshDiagnostics_nonempty [OF assms(1) typos_fit [OF assms(2)]]
  show "\<exists>s'. refreshDiagnostics doc s = Some (Inr s')
           \<and> codespellDiagnostics s' (uri doc)
             = Some (concat (map (\<lambda>typo.
                   map (\<lambda>i. CodespellDiagnostic
                                (Range (positionAt doc i) (positionAt doc (i + length (token typo))))
                                typo \<lparr>index = i, match0 = token typo\<rparr>)
                       (spec_occurrences (token typo) (getText doc))) typos))"
    by simp
next
  show "\<forall>typo \<in> set typos.
           newRegExp (escapeRegExp (token typo))
             = Inr \<lparr>terms = map PatternCharacter (token typo), lastIndex = 0\<rparr>
           \<and> (\<forall>i \<in> set (spec_occurrences (token typo) (getText doc)). literalAt (token typo) (getText doc) i)
           \<and> (\<forall>j. literalAt (token typo) (getText doc) j \<longrightarrow>
                 (\<exists>i \<in> set (spec_occurrences (token typo) (getText doc)). i \<le> j \<and> j < i + length (token typo)))
           \<and> ((\<forall>i j. literalAt (token typo) (getText doc) i \<and> literalAt (token typo) (getText doc) j \<and> i < j
                        \<longrightarrow> i + length (token typo) \<le> j)
                \<longrightarrow> spec_occurrences (token typo) (getText doc)
                    = filter (literalAt (token typo) (getText doc)) [0..<Suc (length (getText doc))])"
  proof (rule ballI)
    fix typo assume "typo \<in> set typos"
    with assms(2) have t: "token typo \<noteq> []" by simp
    have all: "spec_occurrences (token typo) (getText doc)
                 = filter (literalAt (token typo) (getText doc)) [0..<Suc (length (getText doc))]"
      if "\<forall>i j. literalAt (token typo) (getText doc) i \<and> literalAt (token typo) (getText doc) j \<and> i < j
                        \<longrightarrow> i + length (token typo) \<le> j"
      using spec_occurrencesFrom_all [OF t that, of 0] by (simp add: spec_occurrences_def)
    from spec_occurrences_facts(2,3) [OF t, of "getText doc"] all
      newRegExp_escapeRegExp [of "token typo"]
    show "newRegExp (escapeRegExp (token typo))
             = Inr \<lparr>terms = map PatternCharacter (token typo), lastIndex = 0\<rparr>
           \<and> (\<forall>i \<in> set (spec_occurrences (token typo) (getText doc)). literalAt (token typo) (getText doc) i)
           \<and> (\<forall>j. literalAt (token typo) (getText doc) j \<longrightarrow>
                 (\<exists>i \<in> set (spec_occurrences (token typo) (getText doc)). i \<le> j \<and> j < i + length (token typo)))
           \<and> ((\<forall>i j. literalAt (token typo) (getText doc) i \<and> literalAt (token typo) (getText doc) j \<and> i < j
                        \<longrightarrow> i + length (token typo) \<le> j)
                \<longrightarrow> spec_occurrences (token typo) (getText doc)
                    = filter (literalAt (token typo) (getText doc)) [0..<Suc (length (getText doc))])"
      by blast
  qed
qed

text \<open>
  The instance of C2 for the text \<^verbatim>\<open>axbbc a.b*c a\nb\<close> with the token \<^verbatim>\<open>a.b*c\<close>, which read
  as a pattern would match at offset 0 and stands verbatim at offset 6 only, and the
  token \<^verbatim>\<open>a\nb\<close>, which spans the line boundary: one diagnostic each, from offset 6 to 11
  and from offset 12 on line 0 to offset 15 on line 1.
\<close>

theorem refreshDiagnostics_matches_literal_witness:
  "\<exists>s'. refreshDiagnostics patternDocument
           (emptyState\<lparr>documentsToTypos := [exampleUri \<mapsto> [patternTypo, newlineTypo]]\<rparr>) = Some (Inr s')
     \<and> map_option (map diag_range) (codespellDiagnostics s' exampleUri)
       = Some [\<lparr>rangeStart = \<lparr>line = 0, character = 6\<rparr>, rangeEnd = \<lparr>line = 0, character = 11\<rparr>\<rparr>,
               \<lparr>rangeStart = \<lparr>line = 0, character = 12\<rparr>, rangeEnd = \<lparr>line = 1, character = 1\<rparr>\<rparr>]"
proof -
  let ?s = "emptyState\<lparr>documentsToTypos := [exampleUri \<mapsto> [patternTypo, newlineTypo]]\<rparr>"
  have u: "uri patternDocument = exampleUri" "getText patternDocument = js ''axbbc a.b*c a\<newline>b''"
    by (simp_all add: patternDocument_def)
  have tok: "token patternTypo = js ''a.b*c''" "token newlineTypo = js ''a\<newline>b''"
    "info patternTypo = js ''misspelling''" "info newlineTypo = js ''misspelling''"
    by (simp_all add: patternTypo_def newlineTypo_def tehTypo_def)
  have ne: "js ''a.b*c'' \<noteq> []" "js ''a\<newline>b'' \<noteq> []" "js ''misspelling'' \<noteq> []"
    by (simp_all add: js_def)
  have "documentsToTypos ?s (uri patternDocument) = Some [patternTypo, newlineTypo]"
    by (simp add: u)
  moreover have "\<forall>typo \<in> set [patternTypo, newlineTypo]. token typo \<noteq> []
           \<and> ((\<exists>i. literalAt (token typo) (getText patternDocument) i) \<longrightarrow> info typo \<noteq> [])"
    by (simp add: tok ne)
  ultimately obtain s' where s': "refreshDiagnostics patternDocument ?s = Some (Inr s')"
    "codespellDiagnostics s' (uri patternDocument)
       = Some (concat (map (\<lambda>typo.
             map (\<lambda>i. CodespellDiagnostic
                          (Range (positionAt patternDocument i) (positionAt patternDocument (i + length (token typo))))
                          typo \<lparr>index = i, match0 = token typo\<rparr>)
                 (spec_occurrences (token typo) (getText patternDocument))) [patternTypo, newlineTypo]))"
    using refreshDiagnostics_matches_literal [of ?s patternDocument "[patternTypo, newlineTypo]"] by blast
  have occ: "spec_occurrences (js ''a.b*c'') (js ''axbbc a.b*c a\<newline>b'') = [6]"
    "spec_occurrences (js ''a\<newline>b'') (js ''axbbc a.b*c a\<newline>b'') = [12]"
    by code_simp+
  have len: "length (js ''a.b*c'') = 5" "length (js ''a\<newline>b'') = 3" by (simp_all add: js_def)
  have pos: "positionAt patternDocument 6 = \<lparr>line = 0, character = 6\<rparr>"
    "positionAt patternDocument 11 = \<lparr>line = 0, character = 11\<rparr>"
    "positionAt patternDocument 12 = \<lparr>line = 0, character = 12\<rparr>"
    "positionAt patternDocument 15 = \<lparr>line = 1, character = 1\<rparr>"
    by code_simp+
  from s' show ?thesis
    by (simp add: u tok occ len pos CodespellDiagnostic_def Range_def isBefore_def)
qed

text \<open>
  C2 as stated, for every text and every token, fails in three ways. The token \<^verbatim>\<open>aa\<close>
  stands verbatim at the offsets 0 and 1 of \<^verbatim>\<open>aaa\<close>, but the only match is the one at
  offset 0, the search going on behind a match. The empty token stands verbatim at every
  offset, but the loop for it never ends and no match is ever stored. And the token
  \<^verbatim>\<open>teh\<close> of a typo with an empty \<open>info\<close> stands verbatim at offset 0 of its document, but
  the constructor of the diagnostic for that match throws, and nothing is stored.
\<close>

theorem refreshDiagnostics_matches_literal_counterexample:
  "literalAt (token aaTypo) (getText aaaDocument) 0
   \<and> literalAt (token aaTypo) (getText aaaDocument) 1
   \<and> refreshDiagnostics aaaDocument (emptyState\<lparr>documentsToTypos := [exampleUri \<mapsto> [aaTypo]]\<rparr>)
     = Some (Inr (emptyState\<lparr>documentsToTypos := [exampleUri \<mapsto> [aaTypo]],
                    codespellDiagnostics := [exampleUri \<mapsto>
                      [CodespellDiagnostic
                         \<lparr>rangeStart = \<lparr>line = 0, character = 0\<rparr>, rangeEnd = \<lparr>line = 0, character = 2\<rparr>\<rparr>
                         aaTypo \<lparr>index = 0, match0 = js ''aa''\<rparr>]]\<rparr>))
   \<and> literalAt (token emptyTypo) (getText tehDocument) 0
   \<and> refreshDiagnostics tehDocument (emptyState\<lparr>documentsToTypos := [exampleUri \<mapsto> [emptyTypo]]\<rparr>) = None
   \<and> literalAt (token noInfoTypo) (getText tehDocument) 0
   \<and> refreshDiagnostics tehDocument (emptyState\<lparr>documentsToTypos := [exampleUri \<mapsto> [noInfoTypo]]\<rparr>)
     = Some (Inl TypeError)"
proof -
  have lit: "literalAt (token aaTypo) (getText aaaDocument) 0"
    "literalAt (token aaTypo) (getText aaaDocument) 1"
    "literalAt (token emptyTypo) (getText tehDocument) 0"
    "literalAt (token noInfoTypo) (getText tehDocument) 0"
    by code_simp+
  have aa: "token aaTypo = js ''aa''" "info aaTypo = js ''misspelling''"
    "uri aaaDocument = exampleUri" "getText aaaDocument = js ''aaa''"
    by (simp_all add: aaTypo_def tehTypo_def aaaDocument_def)
  have ne: "js ''aa'' \<noteq> []" "js ''misspelling'' \<noteq> []" by (simp_all add: js_def)
  have occ: "spec_occurrences (js ''aa'') (js ''aaa'') = [0]" by code_simp
  have pos: "positionAt aaaDocument 0 = \<lparr>line = 0, character = 0\<rparr>"
    "positionAt aaaDocument (Suc (Suc 0)) = \<lparr>line = 0, character = 2\<rparr>"
    by code_simp+
  have len: "length (js ''aa'') = 2" by (simp add: js_def)
  have first: "refreshDiagnostics aaaDocument (emptyState\<lparr>documentsToTypos := [exampleUri \<mapsto> [aaTypo]]\<rparr>)
     = Some (Inr (emptyState\<lparr>documentsToTypos := [exampleUri \<mapsto> [aaTypo]],
                    codespellDiagnostics := [exampleUri \<mapsto>
                      [CodespellDiagnostic
                         \<lparr>rangeStart = \<lparr>line = 0, character = 0\<rparr>, rangeEnd = \<lparr>line = 0, character = 2\<rparr>\<rparr>
                         aaTypo \<lparr>index = 0, match0 = js ''aa''\<rparr>]]\<rparr>))"
    by (subst refreshDiagnostics_nonempty [of _ _ "[aaTypo]"])
       (simp_all add: aa ne occ pos len Range_def isBefore_def emptyState_def)
  have second: "refreshDiagnostics tehDocument (emptyState\<lparr>documentsToTypos := [exampleUri \<mapsto> [emptyTypo]]\<rparr>) = None"
    by (rule refreshDiagnostics_empty_token [of _ _ "[emptyTypo]"])
       (simp_all add: tehDocument_def emptyTypo_def js_def)
  have "spec_occurrences (token noInfoTypo) (getText tehDocument) \<noteq> []"
    using teh_occurrences by (simp add: noInfoTypo_def tehTypo_def tehDocument_def)
  then have third: "refreshDiagnostics tehDocument (emptyState\<lparr>documentsToTypos := [exampleUri \<mapsto> [noInfoTypo]]\<rparr>)
     = Some (Inl TypeError)"
    by (intro refreshDiagnostics_throws [of _ _ "[]" noInfoTypo "[]"])
       (simp_all add: tehDocument_def noInfoTypo_def tehTypo_def js_def)
  from lit first second third show ?thesis by simp
qed

subsection \<open>One diagnostic for every occurrence\<close>

text \<open>
  C3 (as amended). For every document and every typo list in which every token is
  non-empty and every typo whose token stands in the text has a non-empty \<open>info\<close>,
  \<open>refreshDiagnostics\<close> returns without an error, and the diagnostics it stores are,
  typo after typo in the order of the list, one for every occurrence that the
  left-to-right, non-overlapping scan of the typo's token records, in increasing offset
  order: a typo whose token occurs \<open>N\<close> times has \<open>N\<close> diagnostics, none when \<open>N = 0\<close>.
  The range of a diagnostic starts at the document's position of the start offset of its
  occurrence and ends at the position of its end offset, and the ranges of the
  occurrences of a token are pairwise distinct. The occurrences are verbatim, do not
  overlap, and leave out no verbatim occurrence but one that overlaps a recorded one.
\<close>

theorem refreshDiagnostics_one_per_occurrence:
  assumes "documentsToTypos s (uri doc) = Some typos"
    and "\<forall>typo \<in> set typos. token typo \<noteq> []
           \<and> ((\<exists>i. literalAt (token typo) (getText doc) i) \<longrightarrow> info typo \<noteq> [])"
  shows "(\<exists>s'. refreshDiagnostics doc s = Some (Inr s')
           \<and> codespellDiagnostics s' (uri doc)
             = Some (concat (map (\<lambda>typo.
                   map (\<lambda>i. CodespellDiagnostic
                                \<lparr>rangeStart = positionAt doc i,
                                 rangeEnd = positionAt doc (i + length (token typo))\<rparr>
                                typo \<lparr>index = i, match0 = token typo\<rparr>)
                       (spec_occurrences (token typo) (getText doc))) typos)))
         \<and> (\<forall>typo \<in> set typos.
           sorted_wrt (\<lambda>i j. i + length (token typo) \<le> j) (spec_occurrences (token typo) (getText doc))
           \<and> (\<forall>i \<in> set (spec_occurrences (token typo) (getText doc)). literalAt (token typo) (getText doc) i)
           \<and> (\<forall>j. literalAt (token typo) (getText doc) j \<longrightarrow>
                 (\<exists>i \<in> set (spec_occurrences (token typo) (getText doc)). i \<le> j \<and> j < i + length (token typo)))
           \<and> distinct (map (\<lambda>i. \<lparr>rangeStart = positionAt doc i,
                                   rangeEnd = positionAt doc (i + length (token typo))\<rparr>)
                            (spec_occurrences (token typo) (getText doc))))"
proof -
  from assms(2) have tokens: "\<forall>typo \<in> set typos. token typo \<noteq> []" by simp
  from refreshDiagnostics_nonempty [OF assms(1) typos_fit [OF assms(2)]] diagnostics_ranges [OF tokens, of doc]
  have stored: "\<exists>s'. refreshDiagnostics doc s = Some (Inr s')
           \<and> codespellDiagnostics s' (uri doc)
             = Some (concat (map (\<lambda>typo.
                   map (\<lambda>i. CodespellDiagnostic
                                \<lparr>rangeStart = positionAt doc i,
                                 rangeEnd = positionAt doc (i + length (token typo))\<rparr>
                                typo \<lparr>index = i, match0 = token typo\<rparr>)
                       (spec_occurrences (token typo) (getText doc))) typos))"
    by simp
  have each: "\<forall>typo \<in> set typos.
           sorted_wrt (\<lambda>i j. i + length (token typo) \<le> j) (spec_occurrences (token typo) (getText doc))
           \<and> (\<forall>i \<in> set (spec_occurrences (token typo) (getText doc)). literalAt (token typo) (getText doc) i)
           \<and> (\<forall>j. literalAt (token typo) (getText doc) j \<longrightarrow>
                 (\<exists>i \<in> set (spec_occurrences (token typo) (getText doc)). i \<le> j \<and> j < i + length (token typo)))
           \<and> distinct (map (\<lambda>i. \<lparr>rangeStart = positionAt doc i,
                                   rangeEnd = positionAt doc (i + length (token typo))\<rparr>)
                            (spec_occurrences (token typo) (getText doc)))"
  proof (rule ballI)
    fix typo assume mem: "typo \<in> set typos"
    with assms(2) have t: "token typo \<noteq> []" by simp
    from distinct_ranges [OF t, of doc] occurrence_ranges [OF t, of "\<lambda>r i. r" doc]
    have "distinct (map (\<lambda>i. \<lparr>rangeStart = positionAt doc i,
                                   rangeEnd = positionAt doc (i + length (token typo))\<rparr>)
                            (spec_occurrences (token typo) (getText doc)))"
      by simp
    with spec_occurrences_facts [OF t, of "getText doc"]
    show "sorted_wrt (\<lambda>i j. i + length (token typo) \<le> j) (spec_occurrences (token typo) (getText doc))
           \<and> (\<forall>i \<in> set (spec_occurrences (token typo) (getText doc)). literalAt (token typo) (getText doc) i)
           \<and> (\<forall>j. literalAt (token typo) (getText doc) j \<longrightarrow>
                 (\<exists>i \<in> set (spec_occurrences (token typo) (getText doc)). i \<le> j \<and> j < i + length (token typo)))
           \<and> distinct (map (\<lambda>i. \<lparr>rangeStart = positionAt doc i,
                                   rangeEnd = positionAt doc (i + length (token typo))\<rparr>)
                            (spec_occurrences (token typo) (getText doc)))"
      by blast
  qed
  from stored each show ?thesis by (rule conjI)
qed

text \<open>
  The instance of C3 for the token \<^verbatim>\<open>teh\<close>, which stands twice in \<^verbatim>\<open>teh cat\nteh\<close>: two
  diagnostics, on line 0 and on line 1.
\<close>

theorem refreshDiagnostics_one_per_occurrence_witness:
  "\<exists>s'. refreshDiagnostics tehDocument (emptyState\<lparr>documentsToTypos := [exampleUri \<mapsto> [tehTypo]]\<rparr>) = Some (Inr s')
     \<and> map_option (map diag_range) (codespellDiagnostics s' exampleUri)
       = Some [\<lparr>rangeStart = \<lparr>line = 0, character = 0\<rparr>, rangeEnd = \<lparr>line = 0, character = 3\<rparr>\<rparr>,
               \<lparr>rangeStart = \<lparr>line = 1, character = 0\<rparr>, rangeEnd = \<lparr>line = 1, character = 3\<rparr>\<rparr>]"
proof -
  let ?s = "emptyState\<lparr>documentsToTypos := [exampleUri \<mapsto> [tehTypo]]\<rparr>"
  have u: "uri tehDocument = exampleUri" "getText tehDocument = js ''teh cat\<newline>teh''"
    by (simp_all add: tehDocument_def)
  have tok: "token tehTypo = js ''teh''" "info tehTypo = js ''misspelling''" by (simp_all add: tehTypo_def)
  have ne: "js ''teh'' \<noteq> []" "js ''misspelling'' \<noteq> []" by (simp_all add: js_def)
  have "documentsToTypos ?s (uri tehDocument) = Some [tehTypo]"
    by (simp add: u)
  moreover have "\<forall>typo \<in> set [tehTypo]. token typo \<noteq> []
           \<and> ((\<exists>i. literalAt (token typo) (getText tehDocument) i) \<longrightarrow> info typo \<noteq> [])"
    by (simp add: tok ne)
  ultimately obtain s' where s': "refreshDiagnostics tehDocument ?s = Some (Inr s')"
    "codespellDiagnostics s' (uri tehDocument)
       = Some (concat (map (\<lambda>typo.
             map (\<lambda>i. CodespellDiagnostic
                          \<lparr>rangeStart = positionAt tehDocument i,
                           rangeEnd = positionAt tehDocument (i + length (token typo))\<rparr>
                          typo \<lparr>index = i, match0 = token typo\<rparr>)
                 (spec_occurrences (token typo) (getText tehDocument))) [tehTypo]))"
    using refreshDiagnostics_one_per_occurrence [of ?s tehDocument "[tehTypo]"] by blast
  have pos: "positionAt tehDocument 0 = \<lparr>line = 0, character = 0\<rparr>"
    "positionAt tehDocument 3 = \<lparr>line = 0, character = 3\<rparr>"
    "positionAt tehDocument 8 = \<lparr>line = 1, character = 0\<rparr>"
    "positionAt tehDocument 11 = \<lparr>line = 1, character = 3\<rparr>"
    by code_simp+
  have len: "length (js ''teh'') = 3" by (simp add: js_def)
  from s' show ?thesis
    by (simp add: u tok teh_occurrences len pos CodespellDiagnostic_def)
qed

text \<open>
  C3 as stated, for every typo list, fails in two ways. When a token is empty: the token
  \<^verbatim>\<open>teh\<close> occurs twice, but the loop for the empty token before it never ends, and no
  diagnostic is ever stored. And when the \<open>info\<close> of a typo is empty: its token \<^verbatim>\<open>teh\<close>
  occurs twice, but the constructor of the first diagnostic throws a \<open>TypeError\<close>, which
  ends the call with no diagnostic stored.
\<close>

theorem refreshDiagnostics_one_per_occurrence_counterexample:
  "spec_occurrences (token tehTypo) (getText tehDocument) = [0, 8]
   \<and> refreshDiagnostics tehDocument (emptyState\<lparr>documentsToTypos := [exampleUri \<mapsto> [emptyTypo, tehTypo]]\<rparr>)
     = None
   \<and> spec_occurrences (token noInfoTypo) (getText tehDocument) = [0, 8]
   \<and> refreshDiagnostics tehDocument (emptyState\<lparr>documentsToTypos := [exampleUri \<mapsto> [noInfoTypo]]\<rparr>)
     = Some (Inl TypeError)"
proof -
  have occ: "spec_occurrences (token tehTypo) (getText tehDocument) = [0, 8]"
    "spec_occurrences (token noInfoTypo) (getText tehDocument) = [0, 8]"
    using teh_occurrences by (simp_all add: tehTypo_def noInfoTypo_def tehDocument_def)
  have "refreshDiagnostics tehDocument (emptyState\<lparr>documentsToTypos := [exampleUri \<mapsto> [emptyTypo, tehTypo]]\<rparr>)
        = None"
    by (rule refreshDiagnostics_empty_token [of _ _ "[emptyTypo, tehTypo]"])
       (simp_all add: tehDocument_def emptyTypo_def tehTypo_def js_def)
  moreover from occ(2)
  have "refreshDiagnostics tehDocument (emptyState\<lparr>documentsToTypos := [exampleUri \<mapsto> [noInfoTypo]]\<rparr>)
        = Some (Inl TypeError)"
    by (intro refreshDiagnostics_throws [of _ _ "[]" noInfoTypo "[]"])
       (simp_all add: tehDocument_def noInfoTypo_def tehTypo_def js_def)
  ultimately show ?thesis using occ by simp
qed

subsection \<open>Termination\<close>

text \<open>
  C9 (as amended). \<open>refreshDiagnostics\<close> terminates for every document when every
  token of the document's typo list is non-empty (and when the document has no typo
  list): it returns or it throws. For a typo whose token is the empty string and whose
  \<open>info\<close> is not empty, the loop over its matches never ends, whatever the text: \<open>exec\<close>
  matches the empty string at \<open>lastIndex\<close> and leaves \<open>lastIndex\<close> where it is; so
  \<open>refreshDiagnostics\<close> does not terminate when the list holds a typo with an empty
  token and no typo with an empty \<open>info\<close>. For a typo whose token and \<open>info\<close> are both
  empty, the loop ends in its first pass, with the \<open>TypeError\<close> of the constructor.
\<close>

theorem refreshDiagnostics_terminates:
  "((\<forall>typos. documentsToTypos s (uri doc) = Some typos \<longrightarrow> (\<forall>typo \<in> set typos. token typo \<noteq> []))
      \<longrightarrow> (\<exists>r. refreshDiagnostics doc s = Some r))
   \<and> (token typo = [] \<and> info typo \<noteq> [] \<longrightarrow>
        (\<exists>regex. newRegExp (escapeRegExp (token typo)) = Inr regex
                 \<and> exec regex (getText doc) = (Some \<lparr>index = 0, match0 = []\<rparr>, regex)
                 \<and> matchLoop doc typo regex (getText doc) diagnostics = None))
   \<and> (token typo = [] \<and> info typo = [] \<longrightarrow>
        (\<exists>regex. newRegExp (escapeRegExp (token typo)) = Inr regex
                 \<and> exec regex (getText doc) = (Some \<lparr>index = 0, match0 = []\<rparr>, regex)
                 \<and> matchLoop doc typo regex (getText doc) diagnostics = Some (Inl TypeError)))
   \<and> ((\<exists>typos. documentsToTypos s (uri doc) = Some typos
                 \<and> (\<exists>typo \<in> set typos. token typo = []) \<and> (\<forall>typo \<in> set typos. info typo \<noteq> []))
        \<longrightarrow> refreshDiagnostics doc s = None)"
proof (intro conjI impI)
  assume a: "\<forall>typos. documentsToTypos s (uri doc) = Some typos \<longrightarrow> (\<forall>typo \<in> set typos. token typo \<noteq> [])"
  show "\<exists>r. refreshDiagnostics doc s = Some r"
  proof (cases "documentsToTypos s (uri doc)")
    case None
    then show ?thesis by (simp add: refreshDiagnostics_absent)
  next
    case (Some typos)
    with a have "\<forall>typo \<in> set typos. token typo \<noteq> []" by simp
    from refreshDiagnostics_returns [OF Some this] show ?thesis .
  qed
next
  assume "token typo = [] \<and> info typo \<noteq> []"
  with matchLoop_empty_token [of typo doc "getText doc" diagnostics]
  show "\<exists>regex. newRegExp (escapeRegExp (token typo)) = Inr regex
                 \<and> exec regex (getText doc) = (Some \<lparr>index = 0, match0 = []\<rparr>, regex)
                 \<and> matchLoop doc typo regex (getText doc) diagnostics = None"
    by (simp add: newRegExp_escapeRegExp exec_def execFrom_empty)
next
  assume "token typo = [] \<and> info typo = []"
  with matchLoop_empty_token_throws [of typo doc "getText doc" diagnostics]
  show "\<exists>regex. newRegExp (escapeRegExp (token typo)) = Inr regex
                 \<and> exec regex (getText doc) = (Some \<lparr>index = 0, match0 = []\<rparr>, regex)
                 \<and> matchLoop doc typo regex (getText doc) diagnostics = Some (Inl TypeError)"
    by (simp add: newRegExp_escapeRegExp exec_def execFrom_empty)
next
  assume "\<exists>typos. documentsToTypos s (uri doc) = Some typos
                 \<and> (\<exists>typo \<in> set typos. token typo = []) \<and> (\<forall>typo \<in> set typos. info typo \<noteq> [])"
  then show "refreshDiagnostics doc s = None"
    using refreshDiagnostics_empty_token by blast
qed

text \<open>
  The instance of C9 for the document \<^verbatim>\<open>teh cat\nteh\<close>: with the typo \<^verbatim>\<open>teh\<close> the call
  terminates; the loop for the empty token with the \<open>info\<close> \<^verbatim>\<open>nothing\<close> does not end, nor
  does the call for a list that holds it; the loop for the empty token with an empty
  \<open>info\<close> throws.
\<close>

theorem refreshDiagnostics_terminates_witness:
  "(\<exists>r. refreshDiagnostics tehDocument (emptyState\<lparr>documentsToTypos := [exampleUri \<mapsto> [tehTypo]]\<rparr>) = Some r)
   \<and> (\<exists>regex. newRegExp (escapeRegExp (token emptyTypo)) = Inr regex
              \<and> exec regex (getText tehDocument) = (Some \<lparr>index = 0, match0 = []\<rparr>, regex)
              \<and> matchLoop tehDocument emptyTypo regex (getText tehDocument) [] = None)
   \<and> (\<exists>regex. newRegExp (escapeRegExp (token emptyNoInfoTypo)) = Inr regex
              \<and> exec regex (getText tehDocument) = (Some \<lparr>index = 0, match0 = []\<rparr>, regex)
              \<and> matchLoop tehDocument emptyNoInfoTypo regex (getText tehDocument) [] = Some (Inl TypeError))
   \<and> refreshDiagnostics tehDocument (emptyState\<lparr>documentsToTypos := [exampleUri \<mapsto> [tehTypo, emptyTypo]]\<rparr>) = None"
proof -
  have u: "uri tehDocument = exampleUri" by (simp add: tehDocument_def)
  have "token tehTypo \<noteq> []" "token emptyTypo = []" "info emptyTypo \<noteq> []" "info tehTypo \<noteq> []"
    "token emptyNoInfoTypo = []" "info emptyNoInfoTypo = []"
    by (simp_all add: tehTypo_def emptyTypo_def emptyNoInfoTypo_def js_def)
  then show ?thesis
    using refreshDiagnostics_terminates
            [of "emptyState\<lparr>documentsToTypos := [exampleUri \<mapsto> [tehTypo]]\<rparr>" tehDocument emptyTypo "[]"]
          refreshDiagnostics_terminates
            [of "emptyState\<lparr>documentsToTypos := [exampleUri \<mapsto> [tehTypo, emptyTypo]]\<rparr>" tehDocument emptyNoInfoTypo "[]"]
    by (simp add: u)
qed

text \<open>
  C9 as stated, for every typo whose token is the empty string, fails when the \<open>info\<close>
  of the typo is empty as well: the loop for it terminates, the constructor of the first
  diagnostic throwing a \<open>TypeError\<close>, and so does \<open>refreshDiagnostics\<close>.
\<close>

theorem empty_token_loop_counterexample:
  "token emptyNoInfoTypo = []
   \<and> newRegExp (escapeRegExp (token emptyNoInfoTypo)) = Inr \<lparr>terms = [], lastIndex = 0\<rparr>
   \<and> matchLoop tehDocument emptyNoInfoTypo \<lparr>terms = [], lastIndex = 0\<rparr> (getText tehDocument) []
     = Some (Inl TypeError)
   \<and> refreshDiagnostics tehDocument (emptyState\<lparr>documentsToTypos := [exampleUri \<mapsto> [emptyNoInfoTypo]]\<rparr>)
     = Some (Inl TypeError)"
proof -
  have t: "token emptyNoInfoTypo = []" "info emptyNoInfoTypo = []"
    by (simp_all add: emptyNoInfoTypo_def emptyTypo_def)
  have loop: "matchLoop tehDocument emptyNoInfoTypo \<lparr>terms = [], lastIndex = 0\<rparr> s []
              = Some (Inl TypeError)" for s
    using matchLoop_empty_token_throws [OF t(2), of tehDocument s "[]"] by simp
  have regex: "newRegExp (escapeRegExp (token emptyNoInfoTypo)) = Inr \<lparr>terms = [], lastIndex = 0\<rparr>"
    by (simp add: t newRegExp_escapeRegExp)
  have uri: "uri tehDocument = exampleUri" by (simp add: tehDocument_def)
  have "refreshDiagnostics tehDocument (emptyState\<lparr>documentsToTypos := [exampleUri \<mapsto> [emptyNoInfoTypo]]\<rparr>)
        = Some (Inl TypeError)"
    using regex uri by (simp add: refreshDiagnostics_def DocumentsToTypos_getTypos_def loop)
  with t regex loop show ?thesis by simp
qed

subsection \<open>A document without a typo list\<close>

text \<open>
  C10. When the Typo Store has no entry for the document, \<open>refreshDiagnostics\<close> returns
  at once and leaves the state as it is: nothing is written to the diagnostic collection,
  and the diagnostics published for the document before stay.
\<close>

theorem refreshDiagnostics_without_typos:
  assumes "documentsToTypos s (uri doc) = None"
  shows "refreshDiagnostics doc s = Some (Inr s)"
  using assms by (simp add: refreshDiagnostics_def DocumentsToTypos_getTypos_def)

text \<open>
  The instance of C10 for a document that has one published diagnostic and no typo list:
  the diagnostic is still there.
\<close>

theorem refreshDiagnostics_without_typos_witness:
  "refreshDiagnostics tehDocument
     (emptyState\<lparr>codespellDiagnostics :=
        [exampleUri \<mapsto> [CodespellDiagnostic (Range \<lparr>line = 0, character = 0\<rparr> \<lparr>line = 0, character = 3\<rparr>)
                                               tehTypo \<lparr>index = 0, match0 = js ''teh''\<rparr>]]\<rparr>)
   = Some (Inr (emptyState\<lparr>codespellDiagnostics :=
        [exampleUri \<mapsto> [CodespellDiagnostic (Range \<lparr>line = 0, character = 0\<rparr> \<lparr>line = 0, character = 3\<rparr>)
                                               tehTypo \<lparr>index = 0, match0 = js ''teh''\<rparr>]]\<rparr>))"
  by (rule refreshDiagnostics_without_typos) (simp add: emptyState_def)

subsection \<open>The fields of a diagnostic\<close>

text \<open>
  C7. Every diagnostic constructed for a typo has the typo's \<open>info\<close> as its message and
  the constant \<^verbatim>\<open>codespell\<close> as its code; its severity is the typo's severity when that is
  defined, otherwise \<open>Warning\<close> when \<open>isCommon\<close> is true or undefined and \<open>Information\<close>
  when \<open>isCommon\<close> is false. Every diagnostic that \<open>refreshDiagnostics\<close> stores is
  constructed so, for a typo of the document's list.
\<close>

theorem CodespellDiagnostic_fields:
  "diag_message (CodespellDiagnostic rng typo matched) = info typo
   \<and> diag_code (CodespellDiagnostic rng typo matched) = js ''codespell''
   \<and> (\<forall>sv. severity typo = Some sv \<longrightarrow> diag_severity (CodespellDiagnostic rng typo matched) = sv)
   \<and> (severity typo = None \<and> (isCommon typo = Some True \<or> isCommon typo = None)
        \<longrightarrow> diag_severity (CodespellDiagnostic rng typo matched) = Warning)
   \<and> (severity typo = None \<and> isCommon typo = Some False
        \<longrightarrow> diag_severity (CodespellDiagnostic rng typo matched) = Information)
   \<and> (\<forall>s s' doc typos. documentsToTypos s (uri doc) = Some typos \<and> refreshDiagnostics doc s = Some (Inr s')
        \<longrightarrow> (\<exists>diagnostics. codespellDiagnostics s' (uri doc) = Some diagnostics
              \<and> (\<forall>d \<in> set diagnostics. \<exists>rng typo matched.
                    typo \<in> set typos \<and> d = CodespellDiagnostic rng typo matched)))"
proof -
  have fields: "diag_message (CodespellDiagnostic rng typo matched) = info typo
   \<and> diag_code (CodespellDiagnostic rng typo matched) = js ''codespell''
   \<and> (\<forall>sv. severity typo = Some sv \<longrightarrow> diag_severity (CodespellDiagnostic rng typo matched) = sv)
   \<and> (severity typo = None \<and> (isCommon typo = Some True \<or> isCommon typo = None)
        \<longrightarrow> diag_severity (CodespellDiagnostic rng typo matched) = Warning)
   \<and> (severity typo = None \<and> isCommon typo = Some False
        \<longrightarrow> diag_severity (CodespellDiagnostic rng typo matched) = Information)"
    by (auto simp: CodespellDiagnostic_def CODE_SPELL_MENTION_def)
  from refreshDiagnostics_constructed
  have "\<forall>s s' doc typos. documentsToTypos s (uri doc) = Some typos \<and> refreshDiagnostics doc s = Some (Inr s')
        \<longrightarrow> (\<exists>diagnostics. codespellDiagnostics s' (uri doc) = Some diagnostics
              \<and> (\<forall>d \<in> set diagnostics. \<exists>rng typo matched.
                    typo \<in> set typos \<and> d = CodespellDiagnostic rng typo matched))"
    by blast
  with fields show ?thesis by blast
qed

text \<open>
  The instance of C7 for the typo \<^verbatim>\<open>teh\<close>, which has neither a severity nor \<open>isCommon\<close>, and
  for its variants with \<open>isCommon\<close> true, \<open>isCommon\<close> false, and the severity \<open>Hint\<close>.
\<close>

theorem CodespellDiagnostic_fields_witness:
  "diag_message (CodespellDiagnostic (Range \<lparr>line = 0, character = 0\<rparr> \<lparr>line = 0, character = 3\<rparr>)
                   tehTypo \<lparr>index = 0, match0 = js ''teh''\<rparr>) = js ''misspelling''
   \<and> diag_code (CodespellDiagnostic (Range \<lparr>line = 0, character = 0\<rparr> \<lparr>line = 0, character = 3\<rparr>)
                   tehTypo \<lparr>index = 0, match0 = js ''teh''\<rparr>) = js ''codespell''
   \<and> diag_severity (CodespellDiagnostic (Range \<lparr>line = 0, character = 0\<rparr> \<lparr>line = 0, character = 3\<rparr>)
                   tehTypo \<lparr>index = 0, match0 = js ''teh''\<rparr>) = Warning
   \<and> diag_severity (CodespellDiagnostic (Range \<lparr>line = 0, character = 0\<rparr> \<lparr>line = 0, character = 3\<rparr>)
                   (tehTypo\<lparr>isCommon := Some True\<rparr>) \<lparr>index = 0, match0 = js ''teh''\<rparr>) = Warning
   \<and> diag_severity (CodespellDiagnostic (Range \<lparr>line = 0, character = 0\<rparr> \<lparr>line = 0, character = 3\<rparr>)
                   (tehTypo\<lparr>isCommon := Some False\<rparr>) \<lparr>index = 0, match0 = js ''teh''\<rparr>) = Information
   \<and> diag_severity (CodespellDiagnostic (Range \<lparr>line = 0, character = 0\<rparr> \<lparr>line = 0, character = 3\<rparr>)
                   (tehTypo\<lparr>severity := Some Hint, isCommon := Some False\<rparr>) \<lparr>index = 0, match0 = js ''teh''\<rparr>) = Hint"
proof -
  let ?r = "Range \<lparr>line = 0, character = 0\<rparr> \<lparr>line = 0, character = 3\<rparr>"
  let ?m = "\<lparr>index = 0, match0 = js ''teh''\<rparr>"
  have f: "info tehTypo = js ''misspelling''" "severity tehTypo = None" "isCommon tehTypo = None"
    by (simp_all add: tehTypo_def)
  show ?thesis
    using CodespellDiagnostic_fields [of ?r tehTypo ?m]
      CodespellDiagnostic_fields [of ?r "tehTypo\<lparr>isCommon := Some True\<rparr>" ?m]
      CodespellDiagnostic_fields [of ?r "tehTypo\<lparr>isCommon := Some False\<rparr>" ?m]
      CodespellDiagnostic_fields [of ?r "tehTypo\<lparr>severity := Some Hint, isCommon := Some False\<rparr>" ?m]
    by (simp add: f)
qed

section \<open>The claims about saving and closing\<close>

lemma differences_a_ab:
  "findDifferences createPatch_prefix (js ''a\<newline>'') (js ''a\<newline>b\<newline>'') = [js ''\<newline>b'']"
proof -
  have "createPatch_prefix (js ''code'') (js ''a\<newline>'') (js ''a\<newline>b\<newline>'')
        = appendPatch (js ''code'') [js ''a''] [js ''b'']"
    by (simp add: createPatch_prefix_def appendPatch_def js_def nl_def hunkLine_def)
  moreover have "extractAddedLines (appendPatch (js ''code'') [js ''a''] [js ''b''])
        = [concat (map (\<lambda>l. nl # l) [js ''b''])]"
    by (subst extractAddedLines_appendPatch) (simp_all add: startsWith_def js_def nl_def)
  ultimately show ?thesis by (simp add: findDifferences_def) (simp add: js_def nl_def)
qed

lemma differences_a_abc:
  "findDifferences createPatch_prefix (js ''a\<newline>'') (js ''a\<newline>b\<newline>c\<newline>'') = [js ''\<newline>b\<newline>c'']"
proof -
  have "createPatch_prefix (js ''code'') (js ''a\<newline>'') (js ''a\<newline>b\<newline>c\<newline>'')
        = appendPatch (js ''code'') [js ''a''] [js ''b'', js ''c'']"
    by (simp add: createPatch_prefix_def appendPatch_def js_def nl_def hunkLine_def)
  moreover have "extractAddedLines (appendPatch (js ''code'') [js ''a''] [js ''b'', js ''c''])
        = [concat (map (\<lambda>l. nl # l) [js ''b'', js ''c''])]"
    by (subst extractAddedLines_appendPatch) (simp_all add: startsWith_def js_def nl_def)
  ultimately show ?thesis by (simp add: findDifferences_def) (simp add: js_def nl_def)
qed

lemma differences_ab_abc:
  "findDifferences createPatch_prefix (js ''a\<newline>b\<newline>'') (js ''a\<newline>b\<newline>c\<newline>'') = [js ''\<newline>c'']"
proof -
  have "createPatch_prefix (js ''code'') (js ''a\<newline>b\<newline>'') (js ''a\<newline>b\<newline>c\<newline>'')
        = appendPatch (js ''code'') [js ''a'', js ''b''] [js ''c'']"
    by (simp add: createPatch_prefix_def appendPatch_def js_def nl_def hunkLine_def)
  moreover have "extractAddedLines (appendPatch (js ''code'') [js ''a'', js ''b''] [js ''c''])
        = [concat (map (\<lambda>l. nl # l) [js ''c''])]"
    by (subst extractAddedLines_appendPatch) (simp_all add: startsWith_def js_def nl_def)
  ultimately show ?thesis by (simp add: findDifferences_def) (simp add: js_def nl_def)
qed

lemma refreshDiagnostics_prior:
  assumes "\<forall>typos. documentsToTypos s (uri doc) = Some typos \<longrightarrow>
             (\<forall>typo \<in> set typos. token typo \<noteq> []
                \<and> ((\<exists>i. literalAt (token typo) (getText doc) i) \<longrightarrow> info typo \<noteq> []))"
  shows "\<exists>r. refreshDiagnostics doc s = Some (Inr r)"
proof (cases "documentsToTypos s (uri doc)")
  case None
  then show ?thesis by (simp add: refreshDiagnostics_absent)
next
  case (Some typos)
  with assms have "\<forall>typo \<in> set typos. token typo \<noteq> []
                \<and> ((\<exists>i. literalAt (token typo) (getText doc) i) \<longrightarrow> info typo \<noteq> [])" by simp
  from refreshDiagnostics_nonempty [OF Some typos_fit [OF this]] show ?thesis by simp
qed

lemma getTypos_rejected:
  "getTypos prompt parse code = Inl e
   \<longleftrightarrow> prompt code = Inl e
       \<or> (\<exists>answer block. prompt code = Inr answer \<and> getCodeBlock answer = Some block
                          \<and> block \<noteq> [] \<and> parse block = None \<and> e = ParseError)"
  by (auto simp: getTypos_def Let_def split: sum.splits option.splits)

lemma getTypos_no_block:
  assumes "prompt code = Inr answer" "getCodeBlock answer = None \<or> getCodeBlock answer = Some []"
  shows "getTypos prompt parse code = Inr []"
  using assms by (auto simp: getTypos_def Let_def)

lemma saveResume_applies:
  assumes "\<forall>typo \<in> set typos. token typo \<noteq> []
             \<and> (spec_occurrences (token typo) (getText doc) \<noteq> [] \<longrightarrow> info typo \<noteq> [])"
  shows "saveResume (Inr typos) False doc p s
         = Some (Inr (s\<lparr>documentsToTypos := (documentsToTypos s)(uri doc \<mapsto> typos),
                       codespellDiagnostics := (codespellDiagnostics s)(uri doc \<mapsto>
                          concat (map (\<lambda>typo.
                             map (\<lambda>i. CodespellDiagnostic
                                          (Range (positionAt doc i) (positionAt doc (i + length (token typo))))
                                          typo \<lparr>index = i, match0 = token typo\<rparr>)
                                 (spec_occurrences (token typo) (getText doc))) typos)),
                       lastSavedContent := (lastSavedContent s)(pendingUri p \<mapsto> pendingContent p)\<rparr>))"
proof -
  let ?s1 = "spellCheckDone doc (Inr typos) False s"
  have "documentsToTypos ?s1 (uri doc) = Some typos" by (simp add: spellCheckDone_def)
  from refreshDiagnostics_nonempty [OF this assms] show ?thesis
    by (simp add: saveResume_def) (simp add: spellCheckDone_def)
qed

lemma saveResume_keeps:
  assumes "refreshDiagnostics doc s = Some (Inr r)"
    and "stale \<or> (\<exists>e. answer = Inl e)"
  shows "saveResume answer stale doc p s
         = Some (Inr (r\<lparr>lastSavedContent := (lastSavedContent s)(pendingUri p \<mapsto> pendingContent p)\<rparr>))"
proof -
  from assms(2) have "spellCheckDone doc answer stale s = s"
    by (auto simp: spellCheckDone_def split: sum.splits)
  with assms(1) refreshDiagnostics_frame(2) [OF assms(1)] show ?thesis
    by (simp add: saveResume_def)
qed

subsection \<open>Closing a document\<close>

text \<open>
  C4 (as amended). When a document is closed, the entry of the diagnostic collection for
  its identity is removed, and the entries of the other documents stay; the listener
  touches neither the Typo Store nor the saved-content snapshots, which are after the
  close what they were before.
\<close>

theorem onDidCloseTextDocument_effect:
  "codespellDiagnostics (onDidCloseTextDocument doc s) (uri doc) = None
   \<and> (\<forall>u. u \<noteq> uri doc \<longrightarrow> codespellDiagnostics (onDidCloseTextDocument doc s) u = codespellDiagnostics s u)
   \<and> documentsToTypos (onDidCloseTextDocument doc s) = documentsToTypos s
   \<and> lastSavedContent (onDidCloseTextDocument doc s) = lastSavedContent s"
  by (simp add: onDidCloseTextDocument_def)

text \<open>
  The instance of C4 for a document that has a diagnostics entry, a typo list and a
  snapshot: after the close the diagnostics entry is gone and the Typo Store is unchanged.
\<close>

theorem onDidCloseTextDocument_effect_witness:
  "codespellDiagnostics (onDidCloseTextDocument tehDocument (savedA\<lparr>codespellDiagnostics := [exampleUri \<mapsto> []]\<rparr>)) exampleUri = None
   \<and> documentsToTypos (onDidCloseTextDocument tehDocument (savedA\<lparr>codespellDiagnostics := [exampleUri \<mapsto> []]\<rparr>))
     = documentsToTypos savedA"
  using onDidCloseTextDocument_effect [of tehDocument "savedA\<lparr>codespellDiagnostics := [exampleUri \<mapsto> []]\<rparr>"]
  by (simp add: tehDocument_def)

text \<open>
  C4 as stated fails: after the close of that document the Typo Store still has its typo
  list and the snapshot map still has its saved content.
\<close>

theorem close_keeps_typos_counterexample:
  "documentsToTypos (onDidCloseTextDocument tehDocument (savedA\<lparr>codespellDiagnostics := [exampleUri \<mapsto> []]\<rparr>)) exampleUri
     = Some [tehTypo]
   \<and> lastSavedContent (onDidCloseTextDocument tehDocument (savedA\<lparr>codespellDiagnostics := [exampleUri \<mapsto> []]\<rparr>)) exampleUri
     = Some (js ''a\<newline>'')"
  by (simp add: onDidCloseTextDocument_def savedA_def emptyState_def)

subsection \<open>A failing adapter\<close>

text \<open>
  C5 (as amended). The promise of \<open>getTypos\<close> is rejected when the request fails or when
  the code block of the answer is not empty and cannot be parsed, and in no other case.
  When it is rejected for a save with differences, \<^verbatim>\<open>spellCheck\<close>, as the specification
  has it, leaves the Typo Store as it is, and if the refresh returns for the typo list
  that the document had before (its tokens are non-empty, and the \<open>info\<close> of a typo whose
  token stands in the text is non-empty; or there is no list), the listener returns without
  an exception: the diagnostics are refreshed from the Typo Store as it was, and the
  snapshot becomes the saved content. An answer without a code block, or with an empty
  one, is no failure: \<open>getTypos\<close> returns the empty list, which replaces the typo list
  of the document, and the document's diagnostics are emptied.
\<close>

theorem save_with_failing_adapter:
  assumes "\<forall>typos. documentsToTypos s (uri document) = Some typos \<longrightarrow>
             (\<forall>typo \<in> set typos. token typo \<noteq> []
                \<and> ((\<exists>i. literalAt (token typo) (getText document) i) \<longrightarrow> info typo \<noteq> []))"
    and "differences = findDifferences createPatch
                         (case lastSavedContent s (uri document) of None \<Rightarrow> [] | Some c \<Rightarrow> c)
                         (getText document)"
    and "differences \<noteq> []"
  shows "(getTypos prompt parse (concat differences) = Inl e
            \<longleftrightarrow> prompt (concat differences) = Inl e
                \<or> (\<exists>answer block. prompt (concat differences) = Inr answer
                      \<and> getCodeBlock answer = Some block \<and> block \<noteq> [] \<and> parse block = None
                      \<and> e = ParseError))
         \<and> (getTypos prompt parse (concat differences) = Inl e \<longrightarrow>
              (\<exists>r. refreshDiagnostics document s = Some (Inr r)
                 \<and> documentsToTypos r = documentsToTypos s
                 \<and> onDidSaveTextDocument createPatch prompt parse document s
                   = Some (Inr (r\<lparr>lastSavedContent :=
                                     (lastSavedContent s)(uri document \<mapsto> getText document)\<rparr>))))
         \<and> ((\<exists>answer. prompt (concat differences) = Inr answer
                      \<and> (getCodeBlock answer = None \<or> getCodeBlock answer = Some []))
              \<longrightarrow> getTypos prompt parse (concat differences) = Inr []
                \<and> onDidSaveTextDocument createPatch prompt parse document s
                  = Some (Inr (s\<lparr>documentsToTypos := (documentsToTypos s)(uri document \<mapsto> []),
                                codespellDiagnostics := (codespellDiagnostics s)(uri document \<mapsto> []),
                                lastSavedContent :=
                                  (lastSavedContent s)(uri document \<mapsto> getText document)\<rparr>)))"
proof (intro conjI impI)
  show "getTypos prompt parse (concat differences) = Inl e
            \<longleftrightarrow> prompt (concat differences) = Inl e
                \<or> (\<exists>answer block. prompt (concat differences) = Inr answer
                      \<and> getCodeBlock answer = Some block \<and> block \<noteq> [] \<and> parse block = None
                      \<and> e = ParseError)"
    by (rule getTypos_rejected)
next
  let ?p = "\<lparr>pendingUri = uri document, pendingContent = getText document,
             pendingDifferences = differences\<rparr>"
  from assms(2,3) have started: "saveBegin createPatch document s = Awaiting ?p"
    by (simp add: saveBegin_def isEmpty_def Let_def)
  {
    assume rejected: "getTypos prompt parse (concat differences) = Inl e"
    from refreshDiagnostics_prior [OF assms(1)] obtain r where
      r: "refreshDiagnostics document s = Some (Inr r)" ..
    from rejected saveResume_keeps [OF r, of False "Inl e" ?p] started
    have "onDidSaveTextDocument createPatch prompt parse document s
          = Some (Inr (r\<lparr>lastSavedContent := (lastSavedContent s)(uri document \<mapsto> getText document)\<rparr>))"
      by (simp add: onDidSaveTextDocument_def)
    with r refreshDiagnostics_frame(1) [OF r]
    show "\<exists>r. refreshDiagnostics document s = Some (Inr r)
                 \<and> documentsToTypos r = documentsToTypos s
                 \<and> onDidSaveTextDocument createPatch prompt parse document s
                   = Some (Inr (r\<lparr>lastSavedContent :=
                                     (lastSavedContent s)(uri document \<mapsto> getText document)\<rparr>))"
      by blast
  }
  {
    assume "\<exists>answer. prompt (concat differences) = Inr answer
                      \<and> (getCodeBlock answer = None \<or> getCodeBlock answer = Some [])"
    then obtain answer where "prompt (concat differences) = Inr answer"
      "getCodeBlock answer = None \<or> getCodeBlock answer = Some []" by blast
    from getTypos_no_block [of prompt "concat differences" answer parse, OF this]
    show none: "getTypos prompt parse (concat differences) = Inr []" .
    from saveResume_applies [of "[]" document ?p s] started none
    show "onDidSaveTextDocument createPatch prompt parse document s
                  = Some (Inr (s\<lparr>documentsToTypos := (documentsToTypos s)(uri document \<mapsto> []),
                                codespellDiagnostics := (codespellDiagnostics s)(uri document \<mapsto> []),
                                lastSavedContent :=
                                  (lastSavedContent s)(uri document \<mapsto> getText document)\<rparr>))"
      by (simp add: onDidSaveTextDocument_def)
  }
qed

text \<open>
  The instance of C5 for the save of \<^verbatim>\<open>a\nb\n\<close> over the snapshot \<^verbatim>\<open>a\n\<close>, the document
  having the typo list \<^verbatim>\<open>teh\<close>. With a request that fails, the typo list stays, the
  diagnostics are those of the list (none, \<^verbatim>\<open>teh\<close> is not in the text) and the snapshot is
  the new content; the same with an answer whose code block is not JSON. With an answer
  that has no code block, the typo list of the document becomes the empty list.
\<close>

theorem save_with_failing_adapter_witness:
  "onDidSaveTextDocument createPatch_prefix (\<lambda>code. Inl NetworkError) (\<lambda>block. None) documentAB savedA
     = Some (Inr (savedA\<lparr>codespellDiagnostics := [exampleUri \<mapsto> []],
                         lastSavedContent := [exampleUri \<mapsto> js ''a\<newline>b\<newline>'']\<rparr>))
   \<and> getTypos (\<lambda>code. Inr (fence @ js ''json\<newline>[teh\<newline>'' @ fence)) (\<lambda>block. None) (js ''\<newline>b'')
     = Inl ParseError
   \<and> onDidSaveTextDocument createPatch_prefix (\<lambda>code. Inr (js ''no typos found'')) (\<lambda>block. None)
       documentAB savedA
     = Some (Inr (savedA\<lparr>documentsToTypos := [exampleUri \<mapsto> []],
                         codespellDiagnostics := [exampleUri \<mapsto> []],
                         lastSavedContent := [exampleUri \<mapsto> js ''a\<newline>b\<newline>'']\<rparr>))"
proof -
  have docs: "uri documentAB = exampleUri" "getText documentAB = js ''a\<newline>b\<newline>''"
    by (simp_all add: documentAB_def)
  have st: "lastSavedContent savedA = [exampleUri \<mapsto> js ''a\<newline>'']"
    "documentsToTypos savedA = [exampleUri \<mapsto> [tehTypo]]"
    "codespellDiagnostics savedA = Map.empty"
    by (simp_all add: savedA_def emptyState_def)
  have tok: "token tehTypo = js ''teh''" "info tehTypo = js ''misspelling''" by (simp_all add: tehTypo_def)
  have ne: "js ''teh'' \<noteq> []" "js ''misspelling'' \<noteq> []" by (simp_all add: js_def)
  have prior: "\<forall>typos. documentsToTypos savedA (uri documentAB) = Some typos \<longrightarrow>
             (\<forall>typo \<in> set typos. token typo \<noteq> []
                \<and> ((\<exists>i. literalAt (token typo) (getText documentAB) i) \<longrightarrow> info typo \<noteq> []))"
    by (simp add: docs st tok ne)
  have diffs: "[js ''\<newline>b''] = findDifferences createPatch_prefix
                         (case lastSavedContent savedA (uri documentAB) of None \<Rightarrow> [] | Some c \<Rightarrow> c)
                         (getText documentAB)"
    by (simp add: docs st differences_a_ab)
  have block: "getCodeBlock (fence @ js ''json\<newline>[teh\<newline>'' @ fence) = Some (js ''[teh'')"
    "getCodeBlock (js ''no typos found'') = None"
    by code_simp+
  have unparsed: "js ''[teh'' \<noteq> []" by (simp add: js_def)
  have occ: "spec_occurrences (js ''teh'') (js ''a\<newline>b\<newline>'') = []" by code_simp
  have refreshed: "refreshDiagnostics documentAB savedA
                   = Some (Inr (savedA\<lparr>codespellDiagnostics := [exampleUri \<mapsto> []]\<rparr>))"
    by (subst refreshDiagnostics_nonempty [of _ _ "[tehTypo]"])
       (simp_all add: docs st tok ne occ)
  note inst = save_with_failing_adapter [OF prior diffs, of _ "\<lambda>block. None"]
  from inst [of "\<lambda>code. Inl NetworkError" NetworkError, THEN conjunct2, THEN conjunct1] refreshed
  have first: "onDidSaveTextDocument createPatch_prefix (\<lambda>code. Inl NetworkError) (\<lambda>block. None) documentAB savedA
     = Some (Inr (savedA\<lparr>codespellDiagnostics := [exampleUri \<mapsto> []],
                         lastSavedContent := [exampleUri \<mapsto> js ''a\<newline>b\<newline>'']\<rparr>))"
    by (simp add: getTypos_def docs st)
  from inst [of "\<lambda>code. Inr (fence @ js ''json\<newline>[teh\<newline>'' @ fence)" ParseError, THEN conjunct1]
  have second: "getTypos (\<lambda>code. Inr (fence @ js ''json\<newline>[teh\<newline>'' @ fence)) (\<lambda>block. None) (js ''\<newline>b'')
     = Inl ParseError"
    by (simp add: block unparsed)
  from inst [of "\<lambda>code. Inr (js ''no typos found'')" ParseError, THEN conjunct2, THEN conjunct2]
  have third: "onDidSaveTextDocument createPatch_prefix (\<lambda>code. Inr (js ''no typos found'')) (\<lambda>block. None)
       documentAB savedA
     = Some (Inr (savedA\<lparr>documentsToTypos := [exampleUri \<mapsto> []],
                         codespellDiagnostics := [exampleUri \<mapsto> []],
                         lastSavedContent := [exampleUri \<mapsto> js ''a\<newline>b\<newline>'']\<rparr>))"
    by (simp add: block docs st)
  from first second third show ?thesis by simp
qed

text \<open>
  C5 as stated fails in three ways. An answer without a code block is malformed, but
  \<open>getTypos\<close> turns it into the empty typo list, and the typo list \<^verbatim>\<open>teh\<close> that the
  document had is replaced by it. When the request fails and the typo list that the
  document had holds a typo with an empty \<open>info\<close> whose token stands in the text, the
  refresh throws a \<open>TypeError\<close>, which the listener does not catch. And when that list
  holds a typo with an empty token, the refresh, and with it the listener, never returns.
\<close>

theorem save_adapter_counterexample:
  "documentsToTypos savedA exampleUri = Some [tehTypo]
   \<and> getCodeBlock (js ''no typos found'') = None
   \<and> onDidSaveTextDocument createPatch_prefix (\<lambda>code. Inr (js ''no typos found'')) (\<lambda>block. None)
       documentAB savedA
     = Some (Inr (savedA\<lparr>documentsToTypos := [exampleUri \<mapsto> []],
                         codespellDiagnostics := [exampleUri \<mapsto> []],
                         lastSavedContent := [exampleUri \<mapsto> js ''a\<newline>b\<newline>'']\<rparr>))
   \<and> onDidSaveTextDocument createPatch_prefix (\<lambda>code. Inl NetworkError) (\<lambda>block. None) documentAB
       (savedA\<lparr>documentsToTypos := [exampleUri \<mapsto> [typoB\<lparr>info := []\<rparr>]]\<rparr>)
     = Some (Inl TypeError)
   \<and> onDidSaveTextDocument createPatch_prefix (\<lambda>code. Inl NetworkError) (\<lambda>block. None) documentAB
       (savedA\<lparr>documentsToTypos := [exampleUri \<mapsto> [emptyTypo]]\<rparr>)
     = None"
proof -
  have docs: "uri documentAB = exampleUri" "getText documentAB = js ''a\<newline>b\<newline>''"
    by (simp_all add: documentAB_def)
  have st: "lastSavedContent savedA = [exampleUri \<mapsto> js ''a\<newline>'']"
    "documentsToTypos savedA = [exampleUri \<mapsto> [tehTypo]]"
    "codespellDiagnostics savedA = Map.empty"
    by (simp_all add: savedA_def emptyState_def)
  have block: "getCodeBlock (js ''no typos found'') = None" by code_simp
  let ?p = "\<lparr>pendingUri = exampleUri, pendingContent = js ''a\<newline>b\<newline>'',
             pendingDifferences = [js ''\<newline>b'']\<rparr>"
  have started: "saveBegin createPatch_prefix documentAB (savedA\<lparr>documentsToTypos := m\<rparr>) = Awaiting ?p" for m
    by (simp add: saveBegin_def docs st differences_a_ab isEmpty_def)
  from started [of "documentsToTypos savedA"]
  have started0: "saveBegin createPatch_prefix documentAB savedA = Awaiting ?p" by simp
  have first: "onDidSaveTextDocument createPatch_prefix (\<lambda>code. Inr (js ''no typos found'')) (\<lambda>block. None)
       documentAB savedA
     = Some (Inr (savedA\<lparr>documentsToTypos := [exampleUri \<mapsto> []],
                         codespellDiagnostics := [exampleUri \<mapsto> []],
                         lastSavedContent := [exampleUri \<mapsto> js ''a\<newline>b\<newline>'']\<rparr>))"
    using saveResume_applies [of "[]" documentAB ?p savedA]
    by (simp add: onDidSaveTextDocument_def started0 getTypos_def block docs st)
  have tokB: "token (typoB\<lparr>info := []\<rparr>) = js ''b''" "info (typoB\<lparr>info := []\<rparr>) = []"
    by (simp_all add: typoB_def)
  have occB: "spec_occurrences (js ''b'') (js ''a\<newline>b\<newline>'') = [2]" by code_simp
  have neB: "js ''b'' \<noteq> []" by (simp add: js_def)
  have "refreshDiagnostics documentAB (savedA\<lparr>documentsToTypos := [exampleUri \<mapsto> [typoB\<lparr>info := []\<rparr>]]\<rparr>)
        = Some (Inl TypeError)"
    by (rule refreshDiagnostics_throws [of _ _ "[]" "typoB\<lparr>info := []\<rparr>" "[]"])
       (simp_all add: docs tokB occB neB)
  then have second: "onDidSaveTextDocument createPatch_prefix (\<lambda>code. Inl NetworkError) (\<lambda>block. None) documentAB
       (savedA\<lparr>documentsToTypos := [exampleUri \<mapsto> [typoB\<lparr>info := []\<rparr>]]\<rparr>)
     = Some (Inl TypeError)"
    by (simp add: onDidSaveTextDocument_def started getTypos_def saveResume_def spellCheckDone_def)
  have "refreshDiagnostics documentAB (savedA\<lparr>documentsToTypos := [exampleUri \<mapsto> [emptyTypo]]\<rparr>) = None"
    by (rule refreshDiagnostics_empty_token [of _ _ "[emptyTypo]"])
       (simp_all add: docs emptyTypo_def js_def)
  then have third: "onDidSaveTextDocument createPatch_prefix (\<lambda>code. Inl NetworkError) (\<lambda>block. None) documentAB
       (savedA\<lparr>documentsToTypos := [exampleUri \<mapsto> [emptyTypo]]\<rparr>)
     = None"
    by (simp add: onDidSaveTextDocument_def started getTypos_def saveResume_def spellCheckDone_def)
  from first second third block st(2) show ?thesis by simp
qed

subsection \<open>Two saves in rapid succession\<close>

text \<open>
  C6. The map \<^verbatim>\<open>lastSavedContent\<close> is, by the comments of the code, the "last saved
  content of documents", and a save's differences are to be those against the content
  of the save before it. The listener sets the snapshot only after its \<^verbatim>\<open>await\<close>, and
  that breaks both, for a document whose snapshot is \<^verbatim>\<open>a\n\<close> and which is saved as
  \<^verbatim>\<open>a\nb\n\<close> and then, before the analysis of the first save has arrived, as
  \<^verbatim>\<open>a\nb\nc\n\<close>:
  \<^item> the second save reads the snapshot \<^verbatim>\<open>a\n\<close>, not the content of the first save, so
    its differences are \<^verbatim>\<open>\nb\nc\<close> where those against the first save are \<^verbatim>\<open>\nc\<close>;
  \<^item> the analysis of the second save arrives first, and the snapshot becomes
    \<^verbatim>\<open>a\nb\nc\n\<close>; when the analysis of the first save arrives, its listener goes on and
    sets the snapshot back to \<^verbatim>\<open>a\nb\n\<close>, whether the late result is discarded or not;
  \<^item> so the next save of the unchanged document finds the difference \<^verbatim>\<open>\nc\<close> again.
\<close>

theorem rapid_saves_stale_snapshot:
  "lastSavedContent savedA exampleUri = Some (js ''a\<newline>'')
   \<and> saveBegin createPatch_prefix documentAB savedA
     = Awaiting \<lparr>pendingUri = exampleUri, pendingContent = js ''a\<newline>b\<newline>'',
                 pendingDifferences = [js ''\<newline>b'']\<rparr>
   \<and> saveBegin createPatch_prefix documentABC savedA
     = Awaiting \<lparr>pendingUri = exampleUri, pendingContent = js ''a\<newline>b\<newline>c\<newline>'',
                 pendingDifferences = [js ''\<newline>b\<newline>c'']\<rparr>
   \<and> findDifferences createPatch_prefix (getText documentAB) (getText documentABC) = [js ''\<newline>c'']
   \<and> (case saveResume (Inr [typoC]) False documentABC
              \<lparr>pendingUri = exampleUri, pendingContent = js ''a\<newline>b\<newline>c\<newline>'',
               pendingDifferences = [js ''\<newline>b\<newline>c'']\<rparr> savedA of
         Some (Inr s2) \<Rightarrow>
           lastSavedContent s2 exampleUri = Some (js ''a\<newline>b\<newline>c\<newline>'')
           \<and> (case saveResume (Inr [typoB]) True documentABC
                      \<lparr>pendingUri = exampleUri, pendingContent = js ''a\<newline>b\<newline>'',
                       pendingDifferences = [js ''\<newline>b'']\<rparr> s2 of
                 Some (Inr s3) \<Rightarrow>
                   lastSavedContent s3 exampleUri = Some (js ''a\<newline>b\<newline>'')
                   \<and> saveBegin createPatch_prefix documentABC s3
                     = Awaiting \<lparr>pendingUri = exampleUri, pendingContent = js ''a\<newline>b\<newline>c\<newline>'',
                                 pendingDifferences = [js ''\<newline>c'']\<rparr>
               | _ \<Rightarrow> False)
           \<and> (case saveResume (Inr [typoB]) False documentABC
                      \<lparr>pendingUri = exampleUri, pendingContent = js ''a\<newline>b\<newline>'',
                       pendingDifferences = [js ''\<newline>b'']\<rparr> s2 of
                 Some (Inr s3) \<Rightarrow> lastSavedContent s3 exampleUri = Some (js ''a\<newline>b\<newline>'')
               | _ \<Rightarrow> False)
       | _ \<Rightarrow> False)"
proof -
  let ?p1 = "\<lparr>pendingUri = exampleUri, pendingContent = js ''a\<newline>b\<newline>'',
              pendingDifferences = [js ''\<newline>b'']\<rparr>"
  let ?p2 = "\<lparr>pendingUri = exampleUri, pendingContent = js ''a\<newline>b\<newline>c\<newline>'',
              pendingDifferences = [js ''\<newline>b\<newline>c'']\<rparr>"
  have docs: "uri documentAB = exampleUri" "getText documentAB = js ''a\<newline>b\<newline>''"
    "uri documentABC = exampleUri" "getText documentABC = js ''a\<newline>b\<newline>c\<newline>''"
    by (simp_all add: documentAB_def documentABC_def)
  have st: "lastSavedContent savedA exampleUri = Some (js ''a\<newline>'')"
    by (simp add: savedA_def emptyState_def)
  have b1: "saveBegin createPatch_prefix documentAB savedA = Awaiting ?p1"
    by (simp add: saveBegin_def docs st differences_a_ab isEmpty_def)
  have b2: "saveBegin createPatch_prefix documentABC savedA = Awaiting ?p2"
    by (simp add: saveBegin_def docs st differences_a_abc isEmpty_def)
  have d: "findDifferences createPatch_prefix (getText documentAB) (getText documentABC) = [js ''\<newline>c'']"
    by (simp add: docs differences_ab_abc)
  have tok: "token typoB = js ''b''" "token typoC = js ''c''"
    "info typoB = js ''misspelling''" "info typoC = js ''misspelling''"
    by (simp_all add: typoB_def typoC_def tehTypo_def)
  have ne: "js ''b'' \<noteq> []" "js ''c'' \<noteq> []" "js ''misspelling'' \<noteq> []" by (simp_all add: js_def)
  have fitB: "\<forall>typo \<in> set [typoB]. token typo \<noteq> []
             \<and> (spec_occurrences (token typo) (getText documentABC) \<noteq> [] \<longrightarrow> info typo \<noteq> [])"
    and fitC: "\<forall>typo \<in> set [typoC]. token typo \<noteq> []
             \<and> (spec_occurrences (token typo) (getText documentABC) \<noteq> [] \<longrightarrow> info typo \<noteq> [])"
    by (simp_all add: tok ne)
  note second = saveResume_applies [OF fitC, of ?p2 savedA]
  define s2 where "s2 = savedA\<lparr>documentsToTypos := (documentsToTypos savedA)(uri documentABC \<mapsto> [typoC]),
       codespellDiagnostics := (codespellDiagnostics savedA)(uri documentABC \<mapsto>
          concat (map (\<lambda>typo.
             map (\<lambda>i. CodespellDiagnostic
                          (Range (positionAt documentABC i) (positionAt documentABC (i + length (token typo))))
                          typo \<lparr>index = i, match0 = token typo\<rparr>)
                 (spec_occurrences (token typo) (getText documentABC))) [typoC])),
       lastSavedContent := (lastSavedContent savedA)(pendingUri ?p2 \<mapsto> pendingContent ?p2)\<rparr>"
  from second have r2: "saveResume (Inr [typoC]) False documentABC ?p2 savedA = Some (Inr s2)"
    by (simp only: s2_def)
  have snap2: "lastSavedContent s2 exampleUri = Some (js ''a\<newline>b\<newline>c\<newline>'')"
    by (simp add: s2_def)
  have typos2: "documentsToTypos s2 (uri documentABC) = Some [typoC]"
    by (simp add: s2_def)
  from refreshDiagnostics_nonempty [OF typos2 fitC] obtain r where
    r: "refreshDiagnostics documentABC s2 = Some (Inr r)" by blast
  from saveResume_keeps [OF r, of True "Inr [typoB]" ?p1]
  have late: "saveResume (Inr [typoB]) True documentABC ?p1 s2
              = Some (Inr (r\<lparr>lastSavedContent := (lastSavedContent s2)(exampleUri \<mapsto> js ''a\<newline>b\<newline>'')\<rparr>))"
    by simp
  have b3: "saveBegin createPatch_prefix documentABC
              (r\<lparr>lastSavedContent := (lastSavedContent s2)(exampleUri \<mapsto> js ''a\<newline>b\<newline>'')\<rparr>)
            = Awaiting \<lparr>pendingUri = exampleUri, pendingContent = js ''a\<newline>b\<newline>c\<newline>'',
                        pendingDifferences = [js ''\<newline>c'']\<rparr>"
    by (simp add: saveBegin_def docs differences_ab_abc isEmpty_def)
  from saveResume_applies [OF fitB, of ?p1 s2]
  have applied: "\<exists>s3. saveResume (Inr [typoB]) False documentABC ?p1 s2 = Some (Inr s3)
                   \<and> lastSavedContent s3 exampleUri = Some (js ''a\<newline>b\<newline>'')"
    by simp
  then obtain s3 where s3: "saveResume (Inr [typoB]) False documentABC ?p1 s2 = Some (Inr s3)"
    "lastSavedContent s3 exampleUri = Some (js ''a\<newline>b\<newline>'')" by blast
  show ?thesis
    using st snap2 b3 s3(2) by (simp add: b1 b2 d r2 late s3(1))
qed

end
